theory Spec2Isabelle
  imports Main "HOL-Library.Word" "HOL-Library.Signed_Division"
begin

section \<open>The watchdog daemon \<^verbatim>\<open>watchdogd.c\<close> as a process model\<close>

text \<open>
  The daemon is one C file: a handful of small functions around the watchdog device and a
  \<^verbatim>\<open>main\<close> that parses options, opens the device, negotiates the timeout and then kicks
  the device forever.  Everything it does is a call into the operating system, so the model
  is a process state (the globals of the file, the locals of \<^verbatim>\<open>main\<close>, the signal
  dispositions) together with the list of system calls made so far.  The answers of the
  operating system (what \<^verbatim>\<open>open\<close>, \<^verbatim>\<open>daemonize\<close> and the two timeout ioctls return) are
  a parameter of every run, and signals arrive between the phases of \<^verbatim>\<open>main\<close>.
\<close>

subsection \<open>C integers\<close>

text \<open>
  \<^verbatim>\<open>int\<close> is 32 bits wide, two's complement.  Comparisons in the source are signed
  (\<open><s\<close>, \<open>\<le>s\<close>).  C division truncates towards zero: \<open>sdiv\<close> on \<open>int\<close>.
\<close>

type_synonym c_int = "32 word"

definition c_div :: "c_int \<Rightarrow> c_int \<Rightarrow> c_int" where
  "c_div a b = word_of_int (sint a sdiv sint b)"

text \<open>Lines 33-35: the macros.\<close>

definition WDT_DEVNODE :: string where
  "WDT_DEVNODE = ''/dev/watchdog''"

definition WDT_TIMEOUT_DEFAULT :: c_int where
  "WDT_TIMEOUT_DEFAULT = 20"

definition WDT_KICK_DEFAULT :: c_int where
  "WDT_KICK_DEFAULT = c_div WDT_TIMEOUT_DEFAULT 2"

subsection \<open>The C library's \<^verbatim>\<open>atoi\<close>\<close>

text \<open>
  \<^verbatim>\<open>atoi(s)\<close> is \<^verbatim>\<open>(int) strtol(s, NULL, 10)\<close>: leading white space is skipped, an optional
  sign is read, then decimal digits up to the first other character.  \<^verbatim>\<open>strtol\<close> saturates
  at the range of a 64-bit \<^verbatim>\<open>long\<close>; the cast keeps the low 32 bits.
\<close>

definition isspace :: "char \<Rightarrow> bool" where
  "isspace c = (of_char c \<in> {32, 9, 10, 11, 12, 13 :: nat})"

definition isdigit :: "char \<Rightarrow> bool" where
  "isdigit c = (48 \<le> (of_char c :: nat) \<and> (of_char c :: nat) \<le> 57)"

fun digits_val :: "int \<Rightarrow> string \<Rightarrow> int" where
  "digits_val acc [] = acc"
| "digits_val acc (c # cs) =
     (if isdigit c then digits_val (acc * 10 + (of_char c - 48)) cs else acc)"

definition strtol :: "string \<Rightarrow> int" where
  "strtol s =
     (let r = dropWhile isspace s;
          v = (case r of
                 [] \<Rightarrow> 0
               | c # cs \<Rightarrow>
                   if c = CHR ''-'' then - digits_val 0 cs
                   else if c = CHR ''+'' then digits_val 0 cs
                   else digits_val 0 r)
      in max (- (2 ^ 63)) (min (2 ^ 63 - 1) v))"

definition atoi :: "string \<Rightarrow> c_int" where
  "atoi s = word_of_int (strtol s)"

subsection \<open>System calls and the trace\<close>

datatype signal = SIGINT | SIGTERM | SIGKILL

datatype prio = LOG_ERR | LOG_DEBUG

datatype fmt_arg = Progname | Int_arg c_int | Str_arg string | Chr_arg char | Strerror_errno

datatype request = WDIOC_KEEPALIVE | WDIOC_SETTIMEOUT c_int | WDIOC_GETTIMEOUT

text \<open>
  One event per call that leaves the process.  \<open>Ev_sleep\<close> carries the argument of
  \<^verbatim>\<open>sleep\<close> as the callee sees it: \<^verbatim>\<open>unsigned int\<close>.  \<open>Ev_handler\<close> is written by the
  kernel's side of the model when it transfers control to an installed signal handler.
\<close>

datatype event =
    Ev_syslog prio string "fmt_arg list"
  | Ev_stderr string "fmt_arg list"
  | Ev_printf string "fmt_arg list"
  | Ev_sigaction signal
  | Ev_daemonize "string option"
  | Ev_open string
  | Ev_ioctl c_int request
  | Ev_write c_int string
  | Ev_close c_int
  | Ev_sleep nat
  | Ev_exit c_int
  | Ev_handler signal

datatype status = Running | Exited c_int | Returned c_int | Killed signal

text \<open>
  The phases of \<^verbatim>\<open>main\<close>: option parsing (lines 147-188), backgrounding (190-203),
  opening the device (205-209), setting the timeout (211), reading it back and checking the
  margin (213-221), deriving the interval (224-230), and the two statements of the loop
  (233 and 234).
\<close>

datatype phase =
    PC_getopt | PC_daemon | PC_open | PC_set | PC_get | PC_derive | PC_kick | PC_sleep

text \<open>
  The process: the three globals of lines 43-45, the locals of \<^verbatim>\<open>main\<close> (lines 129-134),
  and what the kernel keeps for it: for each signal whether \<^verbatim>\<open>wdt_magic_close\<close> is
  installed as its handler, where \<^verbatim>\<open>main\<close> stands, whether the process is alive.
\<close>

record proc =
  fd :: c_int
  verbose :: c_int
  sys_log :: c_int
  timeout :: c_int
  real_timeout :: c_int
  period :: c_int
  background :: c_int
  logfile :: "string option"
  handler :: "signal \<Rightarrow> bool"
  pc :: phase
  status :: status
  trace :: "event list"

text \<open>
  What the outside answers.  \<open>VERSION\<close> is the compile-time macro of line 174, which the
  file does not define.  \<open>settimeout_ret\<close> and \<open>gettimeout_ret\<close> are the return value of
  the ioctl and the integer the driver stores through the pointer.
\<close>

record env =
  VERSION :: string
  daemonize_ret :: c_int
  open_ret :: c_int
  settimeout_ret :: "c_int \<times> c_int"
  gettimeout_ret :: "c_int \<times> c_int"

definition emit :: "event \<Rightarrow> proc \<Rightarrow> proc" where
  "emit ev p = p\<lparr>trace := trace p @ [ev]\<rparr>"

definition c_exit :: "c_int \<Rightarrow> proc \<Rightarrow> proc" where
  "c_exit st p = (emit (Ev_exit st) p)\<lparr>status := Exited st\<rparr>"

definition main_return :: "c_int \<Rightarrow> proc \<Rightarrow> proc" where
  "main_return st p = p\<lparr>status := Returned st\<rparr>"

definition nl :: string where
  "nl = [CHR 0x0A]"

definition dq :: string where
  "dq = [CHR 0x22]"

text \<open>Lines 38-41: the logging macros.\<close>

definition print :: "prio \<Rightarrow> string \<Rightarrow> fmt_arg list \<Rightarrow> proc \<Rightarrow> proc" where
  "print pr fmt args p =
     (if sys_log p \<noteq> 0 then emit (Ev_syslog pr fmt args) p else emit (Ev_stderr fmt args) p)"

definition ERROR :: "string \<Rightarrow> fmt_arg list \<Rightarrow> proc \<Rightarrow> proc" where
  "ERROR fmt args p = print LOG_ERR (''%s: '' @ fmt) (Progname # args) p"

definition PERROR :: "string \<Rightarrow> fmt_arg list \<Rightarrow> proc \<Rightarrow> proc" where
  "PERROR fmt args p =
     print LOG_ERR (''%s: '' @ fmt @ '': %s'' @ nl) (Progname # args @ [Strerror_errno]) p"

definition DEBUG :: "string \<Rightarrow> fmt_arg list \<Rightarrow> proc \<Rightarrow> proc" where
  "DEBUG fmt args p =
     (if verbose p \<noteq> 0 then print LOG_DEBUG (''%s: '' @ fmt) (Progname # args) p else p)"

subsection \<open>The functions of the file\<close>

text \<open>Lines 56-62.\<close>

definition wdt_kick :: "proc \<Rightarrow> proc" where
  "wdt_kick p =
     (let p1 = DEBUG (''Kicking watchdog.'' @ nl) [] p
      in emit (Ev_ioctl (fd p1) WDIOC_KEEPALIVE) p1)"

text \<open>Lines 64-73.\<close>

definition wdt_set_timeout :: "env \<Rightarrow> c_int \<Rightarrow> proc \<Rightarrow> proc" where
  "wdt_set_timeout e count p =
     (let p1 = DEBUG (''Setting watchdog timeout to %d sec.'' @ nl) [Int_arg count] p;
          p2 = emit (Ev_ioctl (fd p1) (WDIOC_SETTIMEOUT count)) p1
      in if fst (settimeout_ret e) \<noteq> 0
         then PERROR ''Failed setting HW watchdog timeout'' [] p2
         else DEBUG (''Previous timeout was %d sec'' @ nl) [Int_arg (snd (settimeout_ret e))] p2)"

text \<open>Lines 75-86.  The result is the returned \<^verbatim>\<open>count\<close> and the process after the call.\<close>

definition wdt_get_timeout :: "env \<Rightarrow> proc \<Rightarrow> c_int \<times> proc" where
  "wdt_get_timeout e p =
     (let p1 = emit (Ev_ioctl (fd p) WDIOC_GETTIMEOUT) p;
          err = fst (gettimeout_ret e);
          count = (if err \<noteq> 0 then err else snd (gettimeout_ret e));
          p2 = DEBUG (''Watchdog timeout is set to %d sec.'' @ nl) [Int_arg count] p1
      in (count, p2))"

text \<open>Lines 88-96.\<close>

definition wdt_magic_close :: "signal \<Rightarrow> proc \<Rightarrow> proc" where
  "wdt_magic_close signo p =
     (let p1 = (if fd p \<noteq> - 1
                then emit (Ev_close (fd p))
                       (emit (Ev_write (fd p) ''V'')
                          (DEBUG (''Safe exit, disabling HW watchdog.'' @ nl) [] p))
                else p)
      in c_exit 0 p1)"

text \<open>Lines 98-107.  The two \<^verbatim>\<open>sigaction\<close> calls install the handler; their return
  values are not looked at.\<close>

definition sigaction :: "signal \<Rightarrow> proc \<Rightarrow> proc" where
  "sigaction s p = emit (Ev_sigaction s) (p\<lparr>handler := (handler p)(s := True)\<rparr>)"

definition setup_magic_close :: "proc \<Rightarrow> proc" where
  "setup_magic_close p = sigaction SIGTERM (sigaction SIGINT p)"

text \<open>Lines 109-125.\<close>

definition usage_text :: string where
  "usage_text =
     ''Usage: %s [-f] [-w <sec>] [-k <sec>] [-s] [-h|--help]'' @ nl @
     ''A simple watchdog deamon that kicks /dev/watchdog every %d sec, by default.'' @ nl @
     ''Options:'' @ nl @
     ''  --foreground, -f       Start in foreground (background is default)'' @ nl @
     ''  --logfile, -l <file>   Log to <file> when backgrounding, otherwise silent'' @ nl @
     ''  --timeout, -w <sec>    Set the HW watchdog timeout to <sec> seconds'' @ nl @
     ''  --interval, -k <sec>   Set watchdog kick interval to <sec> seconds'' @ nl @
     ''  --safe-exit, -s        Disable watchdog on exit from SIGINT/SIGTERM'' @ nl @
     ''  --verbose, -V          Verbose operation, noisy output suitable for debugging'' @ nl @
     ''  --version, -v          Display daemon version and exit'' @ nl @
     ''  --help, -h             Display this help message and exit'' @ nl"

definition usage :: "c_int \<Rightarrow> proc \<Rightarrow> c_int \<times> proc" where
  "usage st p = (st, emit (Ev_printf usage_text [Progname, Int_arg WDT_TIMEOUT_DEFAULT]) p)"

subsection \<open>\<^verbatim>\<open>main\<close>\<close>

text \<open>
  What \<^verbatim>\<open>getopt_long\<close> hands to the loop of line 147, one value per round: the option
  character with its argument.  The option string \<^verbatim>\<open>"fl:w:k:sVvh?"\<close> makes \<^verbatim>\<open>w\<close> and
  \<^verbatim>\<open>k\<close> carry an argument; for \<^verbatim>\<open>l\<close> the source tests \<^verbatim>\<open>optarg\<close> itself.  Anything
  \<^verbatim>\<open>getopt_long\<close> does not know comes back as \<^verbatim>\<open>'?'\<close> and reaches \<^verbatim>\<open>default\<close>.
\<close>

datatype opt =
    Opt_f | Opt_l "string option" | Opt_w string | Opt_k string | Opt_s
  | Opt_v | Opt_V | Opt_h | Opt_unknown

text \<open>Lines 147-188: the option loop.  A \<^verbatim>\<open>return\<close> inside it ends \<^verbatim>\<open>main\<close>.\<close>

fun getopt_loop :: "env \<Rightarrow> opt list \<Rightarrow> proc \<Rightarrow> proc" where
  "getopt_loop e [] p = p"
| "getopt_loop e (Opt_f # os) p = getopt_loop e os (p\<lparr>background := 0\<rparr>)"
| "getopt_loop e (Opt_l None # os) p =
     (let (st, p1) = usage 1 (ERROR (''Missing logfile argument.'' @ nl) [] p)
      in main_return st p1)"
| "getopt_loop e (Opt_l (Some f) # os) p = getopt_loop e os (p\<lparr>logfile := Some f\<rparr>)"
| "getopt_loop e (Opt_w a # os) p = getopt_loop e os (p\<lparr>timeout := atoi a\<rparr>)"
| "getopt_loop e (Opt_k a # os) p = getopt_loop e os (p\<lparr>period := atoi a\<rparr>)"
| "getopt_loop e (Opt_s # os) p = getopt_loop e os (setup_magic_close p)"
| "getopt_loop e (Opt_v # os) p =
     main_return 0 (emit (Ev_printf (''v%s'' @ nl) [Str_arg (VERSION e)]) p)"
| "getopt_loop e (Opt_V # os) p = getopt_loop e os (p\<lparr>verbose := 1\<rparr>)"
| "getopt_loop e (Opt_h # os) p = (let (st, p1) = usage 0 p in main_return st p1)"
| "getopt_loop e (Opt_unknown # os) p =
     (let p1 = emit (Ev_printf (''Unrecognized option '' @ dq @ ''-%c'' @ dq @ ''.'' @ nl)
                       [Chr_arg CHR ''?'']) p;
          (st, p2) = usage 1 p1
      in main_return st p2)"

text \<open>
  Lines 190-203.  \<^verbatim>\<open>daemonize\<close> is declared on line 48 and defined elsewhere: the
  model takes the pid it returns from the environment, and takes it to leave the globals and
  the signal dispositions of the process that goes on as they are.
\<close>

definition do_background :: "env \<Rightarrow> proc \<Rightarrow> proc" where
  "do_background e p =
     (if background p \<noteq> 0 then
        (let p1 = (if logfile p = None then p\<lparr>sys_log := 1\<rparr> else p);
             p2 = emit (Ev_daemonize (logfile p1)) p1;
             pid = daemonize_ret e
         in if pid \<noteq> 0 then c_exit (if pid <s 0 then 1 else 0) p2
            else DEBUG (''Starting in deamon mode.'' @ nl) [] p2)
      else p)"

text \<open>Lines 205-209.\<close>

definition do_open :: "env \<Rightarrow> proc \<Rightarrow> proc" where
  "do_open e p =
     (let p1 = (emit (Ev_open WDT_DEVNODE) p)\<lparr>fd := open_ret e\<rparr>
      in if fd p1 = - 1
         then c_exit 1 (PERROR ''Failed opening watchdog device, %s'' [Str_arg WDT_DEVNODE] p1)
         else p1)"

text \<open>Lines 213-221.\<close>

definition margin_fmt :: string where
  "margin_fmt = ''Warning, watchdog timeout <= kick interval: %d <= %d'' @ nl"

definition do_get :: "env \<Rightarrow> proc \<Rightarrow> proc" where
  "do_get e p =
     (let (count, p1) = wdt_get_timeout e p;
          p2 = p1\<lparr>real_timeout := count\<rparr>
      in if real_timeout p2 <s 0
         then PERROR ''Failed reading current watchdog timeout'' [] p2
         else if real_timeout p2 \<le>s period p2
              then ERROR margin_fmt [Int_arg (real_timeout p2), Int_arg (period p2)] p2
              else p2)"

text \<open>Lines 223-230.\<close>

definition do_derive :: "proc \<Rightarrow> proc" where
  "do_derive p =
     (let p1 = (if - 1 = period p
                then (if real_timeout p <s 0
                      then p\<lparr>period := WDT_KICK_DEFAULT\<rparr>
                      else p\<lparr>period := c_div (real_timeout p) 2\<rparr>)
                else p)
      in DEBUG (''Watchdog kick interval set to %d sec.'' @ nl) [Int_arg (period p1)] p1)"

text \<open>Line 234: \<^verbatim>\<open>sleep\<close> takes \<^verbatim>\<open>unsigned int\<close>; the \<^verbatim>\<open>int\<close> argument is converted.\<close>

definition do_sleep :: "proc \<Rightarrow> proc" where
  "do_sleep p = emit (Ev_sleep (unat (period p))) p"

definition goto :: "phase \<Rightarrow> proc \<Rightarrow> proc" where
  "goto l p = (if status p = Running then p\<lparr>pc := l\<rparr> else p)"

text \<open>
  One phase of \<^verbatim>\<open>main\<close>.  Where the phase ended the process, it stays where it was;
  from the last statement of the loop control goes back to the first: \<^verbatim>\<open>while (1)\<close>.
\<close>

definition main_step :: "env \<Rightarrow> opt list \<Rightarrow> proc \<Rightarrow> proc" where
  "main_step e args p =
     (case pc p of
        PC_getopt \<Rightarrow> goto PC_daemon (getopt_loop e args p)
      | PC_daemon \<Rightarrow> goto PC_open (do_background e p)
      | PC_open \<Rightarrow> goto PC_set (do_open e p)
      | PC_set \<Rightarrow> goto PC_get (wdt_set_timeout e (timeout p) p)
      | PC_get \<Rightarrow> goto PC_derive (do_get e p)
      | PC_derive \<Rightarrow> goto PC_kick (do_derive p)
      | PC_kick \<Rightarrow> goto PC_sleep (wdt_kick p)
      | PC_sleep \<Rightarrow> goto PC_kick (do_sleep p))"

subsection \<open>Signals and runs\<close>

text \<open>
  A signal that reaches the live process runs the installed handler (line 103 installs
  \<^verbatim>\<open>wdt_magic_close\<close>); with the default disposition the three signals end the process
  on the spot, and nothing more is called.
\<close>

definition deliver :: "signal \<Rightarrow> proc \<Rightarrow> proc" where
  "deliver s p =
     (if handler p s then wdt_magic_close s (emit (Ev_handler s) p)
      else p\<lparr>status := Killed s\<rparr>)"

datatype input = Step | Signal signal

definition react :: "env \<Rightarrow> opt list \<Rightarrow> proc \<Rightarrow> input \<Rightarrow> proc" where
  "react e args p i =
     (if status p \<noteq> Running then p
      else case i of Step \<Rightarrow> main_step e args p | Signal s \<Rightarrow> deliver s p)"

text \<open>Lines 43-45 and 129-134: the initial values.\<close>

definition proc0 :: proc where
  "proc0 = \<lparr> fd = - 1, verbose = 0, sys_log = 0, timeout = WDT_TIMEOUT_DEFAULT,
             real_timeout = 0, period = - 1, background = 1, logfile = None,
             handler = (\<lambda>s. False), pc = PC_getopt, status = Running, trace = [] \<rparr>"

definition run :: "env \<Rightarrow> opt list \<Rightarrow> input list \<Rightarrow> proc" where
  "run e args ins = foldl (react e args) proc0 ins"

subsection \<open>Notions used to state the properties\<close>

text \<open>The value \<^verbatim>\<open>wdt_get_timeout\<close> returns under \<open>e\<close>: the timeout read back.\<close>

definition readback :: "env \<Rightarrow> c_int" where
  "readback e = fst (wdt_get_timeout e proc0)"

text \<open>The process when the option loop is left.\<close>

definition parsed :: "env \<Rightarrow> opt list \<Rightarrow> proc" where
  "parsed e args = getopt_loop e args proc0"

text \<open>What lines 224-229 leave in \<^verbatim>\<open>period\<close>, from its value \<open>K\<close> after the option loop
  and the timeout \<open>T\<close> read back.\<close>

definition negotiated :: "c_int \<Rightarrow> c_int \<Rightarrow> c_int" where
  "negotiated K T = period (do_derive (proc0\<lparr>period := K, real_timeout := T\<rparr>))"

text \<open>Whether the command line has a \<^verbatim>\<open>-k\<close>.\<close>

fun is_Opt_k :: "opt \<Rightarrow> bool" where
  "is_Opt_k (Opt_k a) = True"
| "is_Opt_k _ = False"

definition explicit_interval :: "opt list \<Rightarrow> bool" where
  "explicit_interval args = list_ex is_Opt_k args"

text \<open>A run without signals: \<open>n\<close> phases of \<^verbatim>\<open>main\<close>.\<close>

definition steps :: "env \<Rightarrow> opt list \<Rightarrow> nat \<Rightarrow> proc" where
  "steps e args n = run e args (replicate n Step)"

text \<open>Log output, on either sink.\<close>

fun is_log :: "event \<Rightarrow> bool" where
  "is_log (Ev_syslog pr f a) = True"
| "is_log (Ev_stderr f a) = True"
| "is_log _ = False"

text \<open>The margin warning of lines 218-219, on either sink.\<close>

fun is_margin_warning :: "event \<Rightarrow> bool" where
  "is_margin_warning (Ev_syslog pr f a) = (f = ''%s: '' @ margin_fmt)"
| "is_margin_warning (Ev_stderr f a) = (f = ''%s: '' @ margin_fmt)"
| "is_margin_warning _ = False"

definition margin_warnings :: "proc \<Rightarrow> nat" where
  "margin_warnings p = length (filter is_margin_warning (trace p))"

text \<open>The invariants of the negotiation: what \<^verbatim>\<open>period\<close> holds in each phase, how often
  the margin warning has been printed, and which \<^verbatim>\<open>sleep\<close> calls have been made.\<close>

definition neg_inv :: "env \<Rightarrow> opt list \<Rightarrow> proc \<Rightarrow> bool" where
  "neg_inv e args p =
     ((pc p = PC_getopt \<and> status p = Running \<longrightarrow> p = proc0) \<and>
      (pc p \<noteq> PC_getopt \<longrightarrow> status (parsed e args) = Running) \<and>
      (pc p \<in> {PC_daemon, PC_open, PC_set, PC_get, PC_derive} \<longrightarrow>
         period p = period (parsed e args)) \<and>
      (pc p = PC_derive \<longrightarrow> real_timeout p = readback e) \<and>
      (pc p \<in> {PC_kick, PC_sleep} \<longrightarrow>
         period p = negotiated (period (parsed e args)) (readback e)) \<and>
      (pc p \<noteq> PC_getopt \<longrightarrow>
         background p = background (parsed e args) \<and> timeout p = timeout (parsed e args) \<and>
         verbose p = verbose (parsed e args) \<and> handler p = handler (parsed e args)) \<and>
      (pc p \<in> {PC_getopt, PC_daemon, PC_open} \<longrightarrow> fd p = - 1) \<and>
      (pc p \<in> {PC_set, PC_get, PC_derive, PC_kick, PC_sleep} \<longrightarrow> fd p = open_ret e))"

definition margin_inv :: "env \<Rightarrow> opt list \<Rightarrow> proc \<Rightarrow> bool" where
  "margin_inv e args p =
     ((pc p \<in> {PC_getopt, PC_daemon, PC_open, PC_set, PC_get} \<longrightarrow> margin_warnings p = 0) \<and>
      (pc p \<in> {PC_derive, PC_kick, PC_sleep} \<longrightarrow>
         margin_warnings p =
           (if 0 \<le>s readback e \<and> readback e \<le>s period (parsed e args) then 1 else 0)))"

definition sleep_inv :: "env \<Rightarrow> opt list \<Rightarrow> proc \<Rightarrow> bool" where
  "sleep_inv e args p =
     ((pc p \<noteq> PC_kick \<and> pc p \<noteq> PC_sleep \<longrightarrow>
         (\<forall>d. Ev_sleep d \<notin> set (trace p)) \<and>
         (\<forall>f. Ev_ioctl f WDIOC_KEEPALIVE \<notin> set (trace p))) \<and>
      (\<forall>d. Ev_sleep d \<in> set (trace p) \<longrightarrow>
         d = unat (negotiated (period (parsed e args)) (readback e))))"

text \<open>A driver that accepts everything, and reports a timeout of 20 seconds.\<close>

definition env_ok :: env where
  "env_ok = \<lparr> VERSION = ''1.0'', daemonize_ret = 0, open_ret = 3,
              settimeout_ret = (0, 20), gettimeout_ret = (0, 20) \<rparr>"

text \<open>What only the signal handler does: the handler is entered, the magic byte is
  written, the device is closed.\<close>

fun is_handler :: "event \<Rightarrow> bool" where
  "is_handler (Ev_handler s) = True"
| "is_handler _ = False"

fun is_write_or_close :: "event \<Rightarrow> bool" where
  "is_write_or_close (Ev_write f b) = True"
| "is_write_or_close (Ev_close f) = True"
| "is_write_or_close _ = False"

text \<open>
  The graceful stop as the specification describes it: the one magic byte written to the
  handle, then that handle closed.  A process has performed it when these two are the writes
  and closes of its trace.
\<close>

fun is_graceful_stop :: "event list \<Rightarrow> bool" where
  "is_graceful_stop [Ev_write f b, Ev_close g] = (b = ''V'' \<and> g = f)"
| "is_graceful_stop evs = False"

definition disabled :: "proc \<Rightarrow> bool" where
  "disabled p = is_graceful_stop (filter is_write_or_close (trace p))"

text \<open>
  Safe-exit is armed and a signal arrives: the command line has \<^verbatim>\<open>-s\<close>, the inputs
  \<open>pre\<close> have taken the live process through the option loop, and the next input is
  \<^verbatim>\<open>SIGINT\<close> or \<^verbatim>\<open>SIGTERM\<close>.
\<close>

definition armed_signal :: "env \<Rightarrow> opt list \<Rightarrow> input list \<Rightarrow> input list \<Rightarrow> signal \<Rightarrow> bool" where
  "armed_signal e args ins pre s =
     (take (Suc (length pre)) ins = pre @ [Signal s] \<and> (s = SIGINT \<or> s = SIGTERM) \<and>
      Opt_s \<in> set args \<and> status (run e args pre) = Running \<and>
      pc (run e args pre) \<noteq> PC_getopt)"

text \<open>What only the option loop does besides logging.\<close>

fun from_getopt :: "event \<Rightarrow> bool" where
  "from_getopt (Ev_syslog pr f a) = True"
| "from_getopt (Ev_stderr f a) = True"
| "from_getopt (Ev_printf f a) = True"
| "from_getopt (Ev_sigaction s) = True"
| "from_getopt _ = False"

text \<open>The message \<^verbatim>\<open>PERROR(f)\<close> prints, on either sink.\<close>

fun is_perror :: "string \<Rightarrow> event \<Rightarrow> bool" where
  "is_perror f (Ev_syslog pr g a) = (pr = LOG_ERR \<and> g = ''%s: '' @ f @ '': %s'' @ nl)"
| "is_perror f (Ev_stderr g a) = (g = ''%s: '' @ f @ '': %s'' @ nl)"
| "is_perror f _ = False"

text \<open>The invariant of the signal dispositions: the handler is installed exactly when
  \<^verbatim>\<open>sigaction\<close> was called, which only \<^verbatim>\<open>-s\<close> does; a live process has not been in
  the handler; and nothing but the handler writes to the device or closes it.\<close>

definition sig_inv :: "opt list \<Rightarrow> proc \<Rightarrow> bool" where
  "sig_inv args p =
     ((\<forall>s. handler p s = (Ev_sigaction s \<in> set (trace p))) \<and>
      (\<forall>s. Ev_sigaction s \<in> set (trace p) \<longrightarrow> Opt_s \<in> set args \<and> s \<noteq> SIGKILL) \<and>
      (status p = Running \<longrightarrow> (\<forall>s. Ev_handler s \<notin> set (trace p))) \<and>
      ((\<forall>s. Ev_handler s \<notin> set (trace p)) \<longrightarrow>
         (\<forall>f b. Ev_write f b \<notin> set (trace p)) \<and> (\<forall>f. Ev_close f \<notin> set (trace p))))"

text \<open>The invariant of a run in which the device does not open.\<close>

definition open_inv :: "proc \<Rightarrow> bool" where
  "open_inv p =
     (pc p \<in> {PC_getopt, PC_daemon, PC_open} \<and> fd p = - 1 \<and>
      (\<forall>f r. Ev_ioctl f r \<notin> set (trace p)) \<and>
      (\<forall>d. Ev_sleep d \<notin> set (trace p)) \<and>
      (status p = Running \<longrightarrow> Ev_open WDT_DEVNODE \<notin> set (trace p)) \<and>
      (Ev_open WDT_DEVNODE \<in> set (trace p) \<longrightarrow>
         status p = Exited 1 \<and>
         (\<exists>tr ev. trace p = tr @ [Ev_open WDT_DEVNODE, ev, Ev_exit 1] \<and>
            is_perror ''Failed opening watchdog device, %s'' ev)))"

text \<open>The sentence of the specification about the disable operation, word for word: the
  magic byte is written to the handle, the handle is closed, the process exits with status
  0, and nothing else is done.\<close>

definition disable_sequence_exact :: "signal \<Rightarrow> proc \<Rightarrow> bool" where
  "disable_sequence_exact s p =
     (trace (wdt_magic_close s p) =
        trace p @ [Ev_write (fd p) ''V'', Ev_close (fd p), Ev_exit 0])"

text \<open>When \<^verbatim>\<open>main\<close> gets as far as the loop: the option loop does not return, the
  process stays in the foreground or is the child \<^verbatim>\<open>daemonize\<close> leaves, and the device
  opens.\<close>

definition startup_ok :: "env \<Rightarrow> opt list \<Rightarrow> bool" where
  "startup_ok e args =
     (status (parsed e args) = Running \<and>
      (background (parsed e args) \<noteq> 0 \<longrightarrow> daemonize_ret e = 0) \<and>
      open_ret e \<noteq> - 1)"

text \<open>The phase a run without signals is in after \<open>n\<close> steps, while it lives.\<close>

definition phase_at :: "nat \<Rightarrow> phase" where
  "phase_at n =
     (if n = 0 then PC_getopt else if n = 1 then PC_daemon else if n = 2 then PC_open
      else if n = 3 then PC_set else if n = 4 then PC_get else if n = 5 then PC_derive
      else if even n then PC_kick else PC_sleep)"

text \<open>The events a function appends to the trace.\<close>

definition new_events :: "(proc \<Rightarrow> proc) \<Rightarrow> proc \<Rightarrow> event list" where
  "new_events f p = drop (length (trace p)) (trace (f p))"

text \<open>
  A virtual clock on traces: only \<^verbatim>\<open>sleep\<close> takes time, and it takes the number of
  seconds it was called with.  \<open>elapsed\<close> is the time a trace takes, \<open>kick_times t\<close> the
  times of its keep-alive ioctls when it starts at time \<open>t\<close>.
\<close>

fun elapsed :: "event list \<Rightarrow> nat" where
  "elapsed [] = 0"
| "elapsed (Ev_sleep d # evs) = d + elapsed evs"
| "elapsed (ev # evs) = elapsed evs"

fun kick_times :: "nat \<Rightarrow> event list \<Rightarrow> nat list" where
  "kick_times t [] = []"
| "kick_times t (Ev_ioctl f WDIOC_KEEPALIVE # evs) = t # kick_times t evs"
| "kick_times t (Ev_sleep d # evs) = kick_times (t + d) evs"
| "kick_times t (ev # evs) = kick_times t evs"

text \<open>The sentence of the specification about the gaps, word for word: consecutive kicks
  are separated by at most the interval \<open>I\<close>.\<close>

fun gaps_at_most :: "int \<Rightarrow> nat list \<Rightarrow> bool" where
  "gaps_at_most I (t1 # t2 # ts) = (int t2 - int t1 \<le> I \<and> gaps_at_most I (t2 # ts))"
| "gaps_at_most I ts = True"

subsection \<open>What the small functions leave unchanged\<close>

lemma proc0_simps [simp]:
  "fd proc0 = - 1" "verbose proc0 = 0" "sys_log proc0 = 0"
  "timeout proc0 = WDT_TIMEOUT_DEFAULT" "real_timeout proc0 = 0" "period proc0 = - 1"
  "background proc0 = 1" "logfile proc0 = None" "handler proc0 s = False"
  "pc proc0 = PC_getopt" "status proc0 = Running" "trace proc0 = []"
  by (simp_all add: proc0_def)

lemma emit_simps [simp]:
  "fd (emit ev p) = fd p" "verbose (emit ev p) = verbose p"
  "sys_log (emit ev p) = sys_log p" "timeout (emit ev p) = timeout p"
  "real_timeout (emit ev p) = real_timeout p" "period (emit ev p) = period p"
  "background (emit ev p) = background p" "logfile (emit ev p) = logfile p"
  "handler (emit ev p) = handler p" "pc (emit ev p) = pc p"
  "status (emit ev p) = status p" "trace (emit ev p) = trace p @ [ev]"
  by (simp_all add: emit_def)

lemma print_simps [simp]:
  "fd (print pr f a p) = fd p" "verbose (print pr f a p) = verbose p"
  "sys_log (print pr f a p) = sys_log p" "timeout (print pr f a p) = timeout p"
  "real_timeout (print pr f a p) = real_timeout p" "period (print pr f a p) = period p"
  "background (print pr f a p) = background p" "logfile (print pr f a p) = logfile p"
  "handler (print pr f a p) = handler p" "pc (print pr f a p) = pc p"
  "status (print pr f a p) = status p"
  by (simp_all add: print_def)

lemma print_trace:
  "trace (print pr f a p) =
     trace p @ [if sys_log p \<noteq> 0 then Ev_syslog pr f a else Ev_stderr f a]"
  by (simp add: print_def)

lemma ERROR_simps [simp]:
  "fd (ERROR f a p) = fd p" "verbose (ERROR f a p) = verbose p"
  "sys_log (ERROR f a p) = sys_log p" "timeout (ERROR f a p) = timeout p"
  "real_timeout (ERROR f a p) = real_timeout p" "period (ERROR f a p) = period p"
  "background (ERROR f a p) = background p" "logfile (ERROR f a p) = logfile p"
  "handler (ERROR f a p) = handler p" "pc (ERROR f a p) = pc p"
  "status (ERROR f a p) = status p"
  by (simp_all add: ERROR_def)

lemma PERROR_simps [simp]:
  "fd (PERROR f a p) = fd p" "verbose (PERROR f a p) = verbose p"
  "sys_log (PERROR f a p) = sys_log p" "timeout (PERROR f a p) = timeout p"
  "real_timeout (PERROR f a p) = real_timeout p" "period (PERROR f a p) = period p"
  "background (PERROR f a p) = background p" "logfile (PERROR f a p) = logfile p"
  "handler (PERROR f a p) = handler p" "pc (PERROR f a p) = pc p"
  "status (PERROR f a p) = status p"
  by (simp_all add: PERROR_def)

lemma DEBUG_simps [simp]:
  "fd (DEBUG f a p) = fd p" "verbose (DEBUG f a p) = verbose p"
  "sys_log (DEBUG f a p) = sys_log p" "timeout (DEBUG f a p) = timeout p"
  "real_timeout (DEBUG f a p) = real_timeout p" "period (DEBUG f a p) = period p"
  "background (DEBUG f a p) = background p" "logfile (DEBUG f a p) = logfile p"
  "handler (DEBUG f a p) = handler p" "pc (DEBUG f a p) = pc p"
  "status (DEBUG f a p) = status p"
  by (simp_all add: DEBUG_def)

lemma c_exit_simps [simp]:
  "fd (c_exit st p) = fd p" "verbose (c_exit st p) = verbose p"
  "sys_log (c_exit st p) = sys_log p" "timeout (c_exit st p) = timeout p"
  "real_timeout (c_exit st p) = real_timeout p" "period (c_exit st p) = period p"
  "background (c_exit st p) = background p" "logfile (c_exit st p) = logfile p"
  "handler (c_exit st p) = handler p" "pc (c_exit st p) = pc p"
  "status (c_exit st p) = Exited st" "trace (c_exit st p) = trace p @ [Ev_exit st]"
  by (simp_all add: c_exit_def)

lemma main_return_simps [simp]:
  "fd (main_return st p) = fd p" "verbose (main_return st p) = verbose p"
  "sys_log (main_return st p) = sys_log p" "timeout (main_return st p) = timeout p"
  "real_timeout (main_return st p) = real_timeout p" "period (main_return st p) = period p"
  "background (main_return st p) = background p" "logfile (main_return st p) = logfile p"
  "handler (main_return st p) = handler p" "pc (main_return st p) = pc p"
  "status (main_return st p) = Returned st" "trace (main_return st p) = trace p"
  by (simp_all add: main_return_def)

lemma goto_simps [simp]:
  "fd (goto l p) = fd p" "verbose (goto l p) = verbose p"
  "sys_log (goto l p) = sys_log p" "timeout (goto l p) = timeout p"
  "real_timeout (goto l p) = real_timeout p" "period (goto l p) = period p"
  "background (goto l p) = background p" "logfile (goto l p) = logfile p"
  "handler (goto l p) = handler p" "status (goto l p) = status p"
  "pc (goto l p) = (if status p = Running then l else pc p)" "trace (goto l p) = trace p"
  by (simp_all add: goto_def)

lemma sigaction_simps [simp]:
  "fd (sigaction s p) = fd p" "verbose (sigaction s p) = verbose p"
  "sys_log (sigaction s p) = sys_log p" "timeout (sigaction s p) = timeout p"
  "real_timeout (sigaction s p) = real_timeout p" "period (sigaction s p) = period p"
  "background (sigaction s p) = background p" "logfile (sigaction s p) = logfile p"
  "pc (sigaction s p) = pc p" "status (sigaction s p) = status p"
  "handler (sigaction s p) = (handler p)(s := True)" "trace (sigaction s p) = trace p @ [Ev_sigaction s]"
  by (simp_all add: sigaction_def)

subsection \<open>Log output is only log output\<close>

lemma print_mem [simp]:
  "\<not> is_log ev \<Longrightarrow> ev \<in> set (trace (print pr f a p)) \<longleftrightarrow> ev \<in> set (trace p)"
  by (auto simp add: print_trace)

lemma ERROR_mem [simp]:
  "\<not> is_log ev \<Longrightarrow> ev \<in> set (trace (ERROR f a p)) \<longleftrightarrow> ev \<in> set (trace p)"
  by (simp add: ERROR_def)

lemma PERROR_mem [simp]:
  "\<not> is_log ev \<Longrightarrow> ev \<in> set (trace (PERROR f a p)) \<longleftrightarrow> ev \<in> set (trace p)"
  by (simp add: PERROR_def)

lemma DEBUG_mem [simp]:
  "\<not> is_log ev \<Longrightarrow> ev \<in> set (trace (DEBUG f a p)) \<longleftrightarrow> ev \<in> set (trace p)"
  by (simp add: DEBUG_def)

subsection \<open>Counting the margin warning\<close>

lemma margin_update [simp]:
  "margin_warnings (p\<lparr>fd := x1\<rparr>) = margin_warnings p"
  "margin_warnings (p\<lparr>verbose := x2\<rparr>) = margin_warnings p"
  "margin_warnings (p\<lparr>sys_log := x3\<rparr>) = margin_warnings p"
  "margin_warnings (p\<lparr>timeout := x4\<rparr>) = margin_warnings p"
  "margin_warnings (p\<lparr>real_timeout := x5\<rparr>) = margin_warnings p"
  "margin_warnings (p\<lparr>period := x6\<rparr>) = margin_warnings p"
  "margin_warnings (p\<lparr>background := x7\<rparr>) = margin_warnings p"
  "margin_warnings (p\<lparr>logfile := x8\<rparr>) = margin_warnings p"
  "margin_warnings (p\<lparr>handler := x9\<rparr>) = margin_warnings p"
  "margin_warnings (p\<lparr>pc := x10\<rparr>) = margin_warnings p"
  "margin_warnings (p\<lparr>status := x11\<rparr>) = margin_warnings p"
  by (simp_all add: margin_warnings_def)

lemma margin_emit [simp]:
  "margin_warnings (emit ev p) = margin_warnings p + (if is_margin_warning ev then 1 else 0)"
  by (simp add: margin_warnings_def)

lemma margin_print [simp]:
  "margin_warnings (print pr f a p) =
     margin_warnings p + (if f = ''%s: '' @ margin_fmt then 1 else 0)"
  by (simp add: margin_warnings_def print_trace)

lemma margin_ERROR [simp]:
  "margin_warnings (ERROR f a p) = margin_warnings p + (if f = margin_fmt then 1 else 0)"
  by (simp add: ERROR_def)

lemma margin_DEBUG [simp]:
  "margin_warnings (DEBUG f a p) =
     margin_warnings p + (if verbose p \<noteq> 0 \<and> f = margin_fmt then 1 else 0)"
  by (simp add: DEBUG_def)

lemma PERROR_fmt_not_margin: "f @ '': %s'' @ nl \<noteq> margin_fmt"
proof
  assume eq: "f @ '': %s'' @ nl = margin_fmt"
  have l: "f @ '': %s'' @ nl = (f @ '': %'') @ [CHR ''s'', CHR 0x0A]"
    by (simp add: nl_def)
  have r: "margin_fmt =
      ''Warning, watchdog timeout <= kick interval: %d <= %'' @ [CHR ''d'', CHR 0x0A]"
    by (simp add: margin_fmt_def nl_def)
  have "(f @ '': %'') @ [CHR ''s'', CHR 0x0A] =
      ''Warning, watchdog timeout <= kick interval: %d <= %'' @ [CHR ''d'', CHR 0x0A]"
    using eq l r by simp
  then have "[CHR ''s'', CHR 0x0A] = [CHR ''d'', CHR 0x0A]"
    by (subst (asm) append_eq_append_conv) simp_all
  then show False by simp
qed

lemma margin_PERROR [simp]:
  "margin_warnings (PERROR f a p) = margin_warnings p"
  using PERROR_fmt_not_margin [of f] by (simp add: PERROR_def)

lemma margin_others [simp]:
  "margin_warnings (c_exit st p) = margin_warnings p"
  "margin_warnings (main_return st p) = margin_warnings p"
  "margin_warnings (goto l p) = margin_warnings p"
  "margin_warnings (sigaction s p) = margin_warnings p"
  by (simp_all add: margin_warnings_def)

lemma fmt_not_margin [simp]:
  "c \<noteq> CHR ''r'' \<Longrightarrow> a # b # c # cs \<noteq> margin_fmt"
  by (simp add: margin_fmt_def)

subsection \<open>The device functions\<close>

lemma wdt_kick_simps [simp]:
  "fd (wdt_kick p) = fd p" "verbose (wdt_kick p) = verbose p"
  "sys_log (wdt_kick p) = sys_log p" "timeout (wdt_kick p) = timeout p"
  "real_timeout (wdt_kick p) = real_timeout p" "period (wdt_kick p) = period p"
  "background (wdt_kick p) = background p" "logfile (wdt_kick p) = logfile p"
  "handler (wdt_kick p) = handler p" "pc (wdt_kick p) = pc p"
  "status (wdt_kick p) = status p"
  by (simp_all add: wdt_kick_def Let_def)

lemma wdt_kick_mem [simp]:
  "\<not> is_log ev \<Longrightarrow>
   ev \<in> set (trace (wdt_kick p)) \<longleftrightarrow> ev = Ev_ioctl (fd p) WDIOC_KEEPALIVE \<or> ev \<in> set (trace p)"
  by (auto simp add: wdt_kick_def Let_def)

lemma wdt_kick_margin [simp]: "margin_warnings (wdt_kick p) = margin_warnings p"
  by (simp add: wdt_kick_def Let_def nl_def)

lemma wdt_set_timeout_simps [simp]:
  "fd (wdt_set_timeout e c p) = fd p" "verbose (wdt_set_timeout e c p) = verbose p"
  "sys_log (wdt_set_timeout e c p) = sys_log p" "timeout (wdt_set_timeout e c p) = timeout p"
  "real_timeout (wdt_set_timeout e c p) = real_timeout p" "period (wdt_set_timeout e c p) = period p"
  "background (wdt_set_timeout e c p) = background p" "logfile (wdt_set_timeout e c p) = logfile p"
  "handler (wdt_set_timeout e c p) = handler p" "pc (wdt_set_timeout e c p) = pc p"
  "status (wdt_set_timeout e c p) = status p"
  by (simp_all add: wdt_set_timeout_def Let_def)

lemma wdt_set_timeout_mem [simp]:
  "\<not> is_log ev \<Longrightarrow>
   ev \<in> set (trace (wdt_set_timeout e c p)) \<longleftrightarrow>
     ev = Ev_ioctl (fd p) (WDIOC_SETTIMEOUT c) \<or> ev \<in> set (trace p)"
  by (auto simp add: wdt_set_timeout_def Let_def)

lemma wdt_set_timeout_margin [simp]:
  "margin_warnings (wdt_set_timeout e c p) = margin_warnings p"
  by (simp add: wdt_set_timeout_def Let_def nl_def)

lemma readback_eq [simp]: "fst (wdt_get_timeout e p) = readback e"
  by (simp add: readback_def wdt_get_timeout_def Let_def)

lemma readback_val:
  "readback e =
     (if fst (gettimeout_ret e) \<noteq> 0 then fst (gettimeout_ret e) else snd (gettimeout_ret e))"
  by (simp add: readback_def wdt_get_timeout_def Let_def)

lemma wdt_get_timeout_simps [simp]:
  "fd (snd (wdt_get_timeout e p)) = fd p" "verbose (snd (wdt_get_timeout e p)) = verbose p"
  "sys_log (snd (wdt_get_timeout e p)) = sys_log p" "timeout (snd (wdt_get_timeout e p)) = timeout p"
  "real_timeout (snd (wdt_get_timeout e p)) = real_timeout p" "period (snd (wdt_get_timeout e p)) = period p"
  "background (snd (wdt_get_timeout e p)) = background p" "logfile (snd (wdt_get_timeout e p)) = logfile p"
  "handler (snd (wdt_get_timeout e p)) = handler p" "pc (snd (wdt_get_timeout e p)) = pc p"
  "status (snd (wdt_get_timeout e p)) = status p"
  by (simp_all add: wdt_get_timeout_def Let_def)

lemma wdt_get_timeout_mem [simp]:
  "\<not> is_log ev \<Longrightarrow>
   ev \<in> set (trace (snd (wdt_get_timeout e p))) \<longleftrightarrow>
     ev = Ev_ioctl (fd p) WDIOC_GETTIMEOUT \<or> ev \<in> set (trace p)"
  by (auto simp add: wdt_get_timeout_def Let_def)

lemma wdt_get_timeout_margin [simp]:
  "margin_warnings (snd (wdt_get_timeout e p)) = margin_warnings p"
  by (simp add: wdt_get_timeout_def Let_def nl_def)

lemma wdt_magic_close_simps [simp]:
  "fd (wdt_magic_close s p) = fd p" "verbose (wdt_magic_close s p) = verbose p"
  "sys_log (wdt_magic_close s p) = sys_log p" "timeout (wdt_magic_close s p) = timeout p"
  "real_timeout (wdt_magic_close s p) = real_timeout p" "period (wdt_magic_close s p) = period p"
  "background (wdt_magic_close s p) = background p" "logfile (wdt_magic_close s p) = logfile p"
  "handler (wdt_magic_close s p) = handler p" "pc (wdt_magic_close s p) = pc p"
  "status (wdt_magic_close s p) = Exited 0"
  by (simp_all add: wdt_magic_close_def Let_def)

lemma wdt_magic_close_mem [simp]:
  "\<not> is_log ev \<Longrightarrow>
   ev \<in> set (trace (wdt_magic_close s p)) \<longleftrightarrow>
     ev = Ev_exit 0 \<or> fd p \<noteq> - 1 \<and> (ev = Ev_write (fd p) ''V'' \<or> ev = Ev_close (fd p)) \<or>
     ev \<in> set (trace p)"
  by (auto simp add: wdt_magic_close_def Let_def)

lemma wdt_magic_close_margin [simp]:
  "margin_warnings (wdt_magic_close s p) = margin_warnings p"
  by (simp add: wdt_magic_close_def Let_def nl_def)

lemma setup_magic_close_simps [simp]:
  "fd (setup_magic_close p) = fd p" "verbose (setup_magic_close p) = verbose p"
  "sys_log (setup_magic_close p) = sys_log p" "timeout (setup_magic_close p) = timeout p"
  "real_timeout (setup_magic_close p) = real_timeout p" "period (setup_magic_close p) = period p"
  "background (setup_magic_close p) = background p" "logfile (setup_magic_close p) = logfile p"
  "pc (setup_magic_close p) = pc p" "status (setup_magic_close p) = status p"
  "handler (setup_magic_close p) = (handler p)(SIGINT := True, SIGTERM := True)" "trace (setup_magic_close p) = trace p @ [Ev_sigaction SIGINT, Ev_sigaction SIGTERM]"
  by (simp_all add: setup_magic_close_def)

lemma setup_magic_close_margin [simp]:
  "margin_warnings (setup_magic_close p) = margin_warnings p"
  by (simp add: setup_magic_close_def)

lemma usage_simps [simp]:
  "fst (usage st p) = st"
  "fd (snd (usage st p)) = fd p" "verbose (snd (usage st p)) = verbose p"
  "sys_log (snd (usage st p)) = sys_log p" "timeout (snd (usage st p)) = timeout p"
  "real_timeout (snd (usage st p)) = real_timeout p" "period (snd (usage st p)) = period p"
  "background (snd (usage st p)) = background p" "logfile (snd (usage st p)) = logfile p"
  "handler (snd (usage st p)) = handler p" "pc (snd (usage st p)) = pc p"
  "status (snd (usage st p)) = status p" "trace (snd (usage st p)) =
     trace p @ [Ev_printf usage_text [Progname, Int_arg WDT_TIMEOUT_DEFAULT]]"
  by (simp_all add: usage_def)

lemma usage_margin [simp]: "margin_warnings (snd (usage st p)) = margin_warnings p"
  by (simp add: usage_def)

subsection \<open>The option loop\<close>

lemma getopt_loop_keeps:
  "pc (getopt_loop e args p) = pc p"
  "fd (getopt_loop e args p) = fd p"
  "real_timeout (getopt_loop e args p) = real_timeout p"
  "sys_log (getopt_loop e args p) = sys_log p"
  by (induction e args p rule: getopt_loop.induct) (simp_all add: split_beta)

lemma getopt_loop_status:
  "status p = Running \<Longrightarrow>
   status (getopt_loop e args p) = Running \<or> (\<exists>st. status (getopt_loop e args p) = Returned st)"
  by (induction e args p rule: getopt_loop.induct) (simp_all add: split_beta)

lemma getopt_loop_margin:
  "margin_warnings (getopt_loop e args p) = margin_warnings p"
  by (induction e args p rule: getopt_loop.induct) (simp_all add: split_beta nl_def)

lemma getopt_loop_period_no_k:
  "\<not> explicit_interval args \<Longrightarrow> period (getopt_loop e args p) = period p"
  by (induction e args p rule: getopt_loop.induct)
     (simp_all add: split_beta explicit_interval_def)

lemma getopt_loop_mem:
  "\<not> from_getopt ev \<Longrightarrow>
   ev \<in> set (trace (getopt_loop e args p)) \<longleftrightarrow> ev \<in> set (trace p)"
proof (induction e args p rule: getopt_loop.induct)
  case (3 e os p)
  then show ?case by (cases ev) (simp_all add: split_beta)
next
  case (8 e os p)
  then show ?case by (cases ev) simp_all
next
  case (10 e os p)
  then show ?case by (cases ev) (simp_all add: split_beta)
next
  case (11 e os p)
  then show ?case by (cases ev) (simp_all add: split_beta Let_def)
next
  case (7 e os p)
  then show ?case by (cases ev) simp_all
qed simp_all

subsection \<open>C arithmetic on the timeout\<close>

lemma sdiv_2_nonneg: "0 \<le> (k::int) \<Longrightarrow> k sdiv 2 = k div 2"
  by (simp add: signed_divide_int_def sgn_if)

lemma sint_c_div_2:
  assumes "(0::c_int) \<le>s T"
  shows "sint (c_div T 2) = sint T div 2"
proof -
  have nn: "0 \<le> sint T" using assms by (simp add: word_sle_eq)
  have lt: "sint T < 2 ^ 31" using sint_lt [of T] by simp
  have "sint T div 2 < 2 ^ 31" using nn lt by linarith
  moreover have "0 \<le> sint T div 2" using nn by simp
  then have "- (2 ^ 31) \<le> sint T div 2" by (rule order_trans [rotated]) simp
  ultimately have "signed_take_bit 31 (sint T div 2) = sint T div 2"
    by (simp add: signed_take_bit_int_eq_self)
  then show ?thesis using nn by (simp add: c_div_def sdiv_2_nonneg sint_sbintrunc')
qed

lemma unat_nonneg:
  assumes "(0::c_int) \<le>s K"
  shows "int (unat K) = sint K"
proof -
  have nn: "0 \<le> sint K" using assms by (simp add: word_sle_eq)
  have lt: "sint K < 2 ^ 31" using sint_lt [of K] by simp
  have "sint K < 2 ^ 32" using lt by simp
  then have tb: "take_bit 32 (sint K) = sint K" using nn by (simp add: take_bit_int_eq_self)
  have "unat K = unat (word_of_int (sint K) :: c_int)" by simp
  also have "\<dots> = nat (take_bit 32 (sint K))" by (simp only: unsigned_of_int) simp
  finally show ?thesis using tb nn by simp
qed

lemma c_div_2_nonneg: "(0::c_int) \<le>s T \<Longrightarrow> 0 \<le>s c_div T 2"
  using sint_c_div_2 [of T] by (simp add: word_sle_eq)

lemma WDT_KICK_DEFAULT_eq: "WDT_KICK_DEFAULT = 10"
  by (simp add: WDT_KICK_DEFAULT_def WDT_TIMEOUT_DEFAULT_def c_div_def signed_divide_int_def)

lemma sless_zero_iff: "T <s 0 \<longleftrightarrow> \<not> (0::c_int) \<le>s T"
  by (simp add: word_sle_eq word_sless_alt not_le)

subsection \<open>The invariants of the negotiation hold in every run\<close>

lemma run_snoc: "run e args (ins @ [i]) = react e args (run e args ins) i"
  by (simp add: run_def)

lemma run_Nil: "run e args [] = proc0"
  by (simp add: run_def)

lemma main_step_getopt:
  "main_step e args proc0 = goto PC_daemon (parsed e args)"
  by (simp add: main_step_def parsed_def)

lemma parsed_keeps:
  "pc (parsed e args) = PC_getopt" "fd (parsed e args) = - 1"
  "real_timeout (parsed e args) = 0" "sys_log (parsed e args) = 0"
  by (simp_all add: parsed_def getopt_loop_keeps)

lemma neg_inv_deliver:
  "neg_inv e args p \<Longrightarrow> status p = Running \<Longrightarrow> neg_inv e args (deliver s p)"
  by (simp add: neg_inv_def deliver_def Let_def)

lemma neg_inv_step:
  assumes "neg_inv e args p" "status p = Running"
  shows "neg_inv e args (main_step e args p)"
proof (cases "pc p")
  case PC_getopt
  then have "p = proc0" using assms by (simp add: neg_inv_def)
  then show ?thesis
    using getopt_loop_status [of proc0 e args]
    by (auto simp add: main_step_getopt neg_inv_def parsed_keeps simp flip: parsed_def)
next
  case PC_daemon
  then show ?thesis using assms
    by (simp add: neg_inv_def main_step_def do_background_def Let_def)
next
  case PC_open
  then show ?thesis using assms
    by (simp add: neg_inv_def main_step_def do_open_def Let_def)
next
  case PC_set
  then show ?thesis using assms
    by (simp add: neg_inv_def main_step_def Let_def)
next
  case PC_get
  then show ?thesis using assms
    by (simp add: neg_inv_def main_step_def do_get_def split_beta Let_def)
next
  case PC_derive
  then show ?thesis using assms
    by (simp add: neg_inv_def main_step_def negotiated_def do_derive_def Let_def)
next
  case PC_kick
  then show ?thesis using assms
    by (simp add: neg_inv_def main_step_def Let_def)
next
  case PC_sleep
  then show ?thesis using assms
    by (simp add: neg_inv_def main_step_def do_sleep_def)
qed

lemma neg_inv_run: "neg_inv e args (run e args ins)"
proof (induction ins rule: rev_induct)
  case Nil
  show ?case by (simp add: run_Nil neg_inv_def)
next
  case (snoc i ins)
  show ?case
  proof (cases "status (run e args ins) = Running")
    case True
    then show ?thesis using snoc neg_inv_step neg_inv_deliver
      by (cases i) (simp_all add: run_snoc react_def)
  next
    case False
    then show ?thesis using snoc by (simp add: run_snoc react_def)
  qed
qed

lemma margin_inv_deliver:
  "margin_inv e args p \<Longrightarrow> margin_inv e args (deliver s p)"
  by (simp add: margin_inv_def deliver_def Let_def)

lemma margin_inv_step:
  assumes "margin_inv e args p" "neg_inv e args p" "status p = Running"
  shows "margin_inv e args (main_step e args p)"
proof (cases "pc p")
  case PC_getopt
  then have "p = proc0" using assms by (simp add: neg_inv_def)
  then show ?thesis
    using getopt_loop_margin [of e args proc0] assms(1)
    by (simp add: main_step_getopt margin_inv_def parsed_keeps flip: parsed_def)
next
  case PC_daemon
  then show ?thesis using assms(1)
    by (simp add: margin_inv_def main_step_def do_background_def Let_def nl_def)
next
  case PC_open
  then show ?thesis using assms(1)
    by (simp add: margin_inv_def main_step_def do_open_def Let_def)
next
  case PC_set
  then show ?thesis using assms(1)
    by (simp add: margin_inv_def main_step_def Let_def)
next
  case PC_get
  then show ?thesis using assms
    by (simp add: margin_inv_def neg_inv_def main_step_def do_get_def split_beta Let_def sless_zero_iff)
next
  case PC_derive
  then show ?thesis using assms(1)
    by (simp add: margin_inv_def main_step_def do_derive_def Let_def nl_def)
next
  case PC_kick
  then show ?thesis using assms(1)
    by (simp add: margin_inv_def main_step_def Let_def)
next
  case PC_sleep
  then show ?thesis using assms(1)
    by (simp add: margin_inv_def main_step_def do_sleep_def)
qed

lemma margin_inv_run: "margin_inv e args (run e args ins)"
proof (induction ins rule: rev_induct)
  case Nil
  show ?case by (simp add: run_Nil margin_inv_def margin_warnings_def)
next
  case (snoc i ins)
  show ?case
  proof (cases "status (run e args ins) = Running")
    case True
    then show ?thesis using snoc margin_inv_step neg_inv_run [of e args ins] margin_inv_deliver
      by (cases i) (simp_all add: run_snoc react_def)
  next
    case False
    then show ?thesis using snoc by (simp add: run_snoc react_def)
  qed
qed

lemma sleep_inv_deliver:
  "sleep_inv e args p \<Longrightarrow> sleep_inv e args (deliver s p)"
  by (simp add: sleep_inv_def deliver_def Let_def)

lemma sleep_inv_step:
  assumes "sleep_inv e args p" "neg_inv e args p" "status p = Running"
  shows "sleep_inv e args (main_step e args p)"
proof (cases "pc p")
  case PC_getopt
  then have "p = proc0" using assms by (simp add: neg_inv_def)
  then show ?thesis
    by (simp add: main_step_getopt sleep_inv_def parsed_keeps parsed_def getopt_loop_mem)
next
  case PC_daemon
  then show ?thesis using assms(1)
    by (simp add: sleep_inv_def main_step_def do_background_def Let_def)
next
  case PC_open
  then show ?thesis using assms(1)
    by (simp add: sleep_inv_def main_step_def do_open_def Let_def)
next
  case PC_set
  then show ?thesis using assms(1)
    by (simp add: sleep_inv_def main_step_def Let_def)
next
  case PC_get
  then show ?thesis using assms(1)
    by (simp add: sleep_inv_def main_step_def do_get_def split_beta Let_def)
next
  case PC_derive
  then show ?thesis using assms(1)
    by (simp add: sleep_inv_def main_step_def do_derive_def Let_def)
next
  case PC_kick
  then show ?thesis using assms(1)
    by (simp add: sleep_inv_def main_step_def Let_def)
next
  case PC_sleep
  then show ?thesis using assms
    by (auto simp add: sleep_inv_def neg_inv_def main_step_def do_sleep_def)
qed

lemma sleep_inv_run: "sleep_inv e args (run e args ins)"
proof (induction ins rule: rev_induct)
  case Nil
  show ?case by (simp add: run_Nil sleep_inv_def)
next
  case (snoc i ins)
  show ?case
  proof (cases "status (run e args ins) = Running")
    case True
    then show ?thesis using snoc sleep_inv_step neg_inv_run [of e args ins] sleep_inv_deliver
      by (cases i) (simp_all add: run_snoc react_def)
  next
    case False
    then show ?thesis using snoc by (simp add: run_snoc react_def)
  qed
qed

lemma period_in_loop:
  "pc (run e args ins) \<in> {PC_kick, PC_sleep} \<Longrightarrow>
   period (run e args ins) = negotiated (period (parsed e args)) (readback e)"
  using neg_inv_run [of e args ins] by (simp add: neg_inv_def)

lemma sleeps_in_run:
  "Ev_sleep d \<in> set (trace (run e args ins)) \<Longrightarrow>
   d = unat (negotiated (period (parsed e args)) (readback e))"
  using sleep_inv_run [of e args ins] by (simp add: sleep_inv_def)

lemma parsed_running_in_loop:
  "pc (run e args ins) \<noteq> PC_getopt \<Longrightarrow> status (parsed e args) = Running"
  using neg_inv_run [of e args ins] by (simp add: neg_inv_def)

lemma margin_in_loop:
  "pc (run e args ins) \<in> {PC_derive, PC_kick, PC_sleep} \<Longrightarrow>
   margin_warnings (run e args ins) =
     (if 0 \<le>s readback e \<and> readback e \<le>s period (parsed e args) then 1 else 0)"
  using margin_inv_run [of e args ins] by (simp add: margin_inv_def)

subsection \<open>Where the option loop leaves \<^verbatim>\<open>period\<close>\<close>

lemma getopt_loop_last_k:
  assumes "\<not> explicit_interval ys"
    and "status (getopt_loop e (xs @ Opt_k a # ys) p) = Running"
  shows "period (getopt_loop e (xs @ Opt_k a # ys) p) = atoi a"
  using assms(2)
proof (induction xs arbitrary: p)
  case Nil
  show ?case using assms(1) by (simp add: getopt_loop_period_no_k)
next
  case (Cons x xs)
  show ?case
  proof (cases x)
    case (Opt_l ol)
    then show ?thesis using Cons by (cases ol) (simp_all add: split_beta)
  qed (use Cons in \<open>simp_all add: split_beta\<close>)
qed

lemma getopt_loop_k_minus_one:
  assumes "\<not> explicit_interval xs" and "period p = - 1"
  shows "getopt_loop e (xs @ Opt_k ''-1'' # ys) p = getopt_loop e (xs @ ys) p"
  using assms
proof (induction xs arbitrary: p)
  case Nil
  have "atoi ''-1'' = - 1" by code_simp
  then have "p\<lparr>period := atoi ''-1''\<rparr> = p" using Nil by simp
  then show ?case by simp
next
  case (Cons x xs)
  show ?case
  proof (cases x)
    case (Opt_l ol)
    then show ?thesis using Cons by (cases ol) (simp_all add: explicit_interval_def)
  qed (use Cons in \<open>simp_all add: explicit_interval_def\<close>)
qed

lemma main_step_args:
  assumes "pc p = PC_getopt \<longrightarrow> getopt_loop e args p = getopt_loop e args' p"
  shows "main_step e args p = main_step e args' p"
  using assms by (cases "pc p") (simp_all add: main_step_def)

lemma run_args:
  assumes "parsed e args = parsed e args'"
  shows "run e args ins = run e args' ins"
proof (induction ins rule: rev_induct)
  case Nil
  show ?case by (simp add: run_Nil)
next
  case (snoc i ins)
  let ?p = "run e args' ins"
  have "status ?p = Running \<Longrightarrow> pc ?p = PC_getopt \<Longrightarrow> ?p = proc0"
    using neg_inv_run [of e args' ins] by (simp add: neg_inv_def)
  then have "status ?p = Running \<Longrightarrow> main_step e args ?p = main_step e args' ?p"
    using assms by (intro main_step_args) (auto simp add: parsed_def)
  then show ?case using snoc by (cases i) (simp_all add: run_snoc react_def)
qed

lemma negotiated_eq:
  "negotiated K T = (if K = - 1 then (if T <s 0 then WDT_KICK_DEFAULT else c_div T 2) else K)"
  by (auto simp add: negotiated_def do_derive_def Let_def)

lemma negotiated_not_minus_one: "negotiated K T \<noteq> - 1"
proof (cases "K = - 1")
  case False
  then show ?thesis by (simp add: negotiated_eq)
next
  case True
  show ?thesis
  proof (cases "T <s 0")
    case True
    then show ?thesis using \<open>K = - 1\<close> by (simp add: negotiated_eq WDT_KICK_DEFAULT_eq)
  next
    case False
    then have "0 \<le>s c_div T 2" by (simp add: sless_zero_iff c_div_2_nonneg)
    moreover have "\<not> 0 \<le>s (- 1 :: c_int)" by simp
    ultimately have "c_div T 2 \<noteq> - 1" by auto
    then show ?thesis using False \<open>K = - 1\<close> by (simp add: negotiated_eq)
  qed
qed

section \<open>The claims about the kick interval\<close>

text \<open>
  C1.  For every known (non-negative) negotiated timeout \<open>T\<close>, when no kick interval was given
  on the command line, the effective kick interval is \<open>T\<close> halved by integer floor division:
  in every run that has reached the loop, \<^verbatim>\<open>period\<close> holds \<open>T div 2\<close>, and every
  \<^verbatim>\<open>sleep\<close> so far was called with that value.
\<close>

theorem C1_interval_is_half_the_timeout:
  assumes "\<not> explicit_interval args"
    and "0 \<le>s readback e"
    and "pc (run e args ins) \<in> {PC_kick, PC_sleep}"
  shows "sint (period (run e args ins)) = sint (readback e) div 2 \<and>
         (\<forall>d. Ev_sleep d \<in> set (trace (run e args ins)) \<longrightarrow> int d = sint (readback e) div 2)"
proof -
  have K: "period (parsed e args) = - 1"
    using assms(1) by (simp add: parsed_def getopt_loop_period_no_k)
  have N: "negotiated (period (parsed e args)) (readback e) = c_div (readback e) 2"
    using assms(2) K by (simp add: negotiated_eq sless_zero_iff)
  have "period (run e args ins) = c_div (readback e) 2"
    using period_in_loop [OF assms(3)] N by simp
  then have 1: "sint (period (run e args ins)) = sint (readback e) div 2"
    using sint_c_div_2 [OF assms(2)] by simp
  have U: "int (unat (c_div (readback e) 2)) = sint (readback e) div 2"
    using unat_nonneg [OF c_div_2_nonneg [OF assms(2)]] sint_c_div_2 [OF assms(2)] by simp
  have 2: "\<forall>d. Ev_sleep d \<in> set (trace (run e args ins)) \<longrightarrow>
      int d = sint (readback e) div 2"
  proof (intro allI impI)
    fix d
    assume "Ev_sleep d \<in> set (trace (run e args ins))"
    then have "d = unat (c_div (readback e) 2)"
      using sleeps_in_run [of d e args ins] N by simp
    then show "int d = sint (readback e) div 2" using U by simp
  qed
  show ?thesis using 1 2 by simp
qed

theorem C1_witness:
  "\<not> explicit_interval [Opt_f, Opt_w ''21''] \<and>
   0 \<le>s readback (env_ok\<lparr>gettimeout_ret := (0, 21)\<rparr>) \<and>
   pc (run (env_ok\<lparr>gettimeout_ret := (0, 21)\<rparr>) [Opt_f, Opt_w ''21''] (replicate 8 Step))
     \<in> {PC_kick, PC_sleep} \<and>
   sint (period (run (env_ok\<lparr>gettimeout_ret := (0, 21)\<rparr>) [Opt_f, Opt_w ''21'']
     (replicate 8 Step))) = 10 \<and>
   Ev_sleep 10 \<in> set (trace (run (env_ok\<lparr>gettimeout_ret := (0, 21)\<rparr>) [Opt_f, Opt_w ''21'']
     (replicate 8 Step)))"
proof -
  let ?e = "env_ok\<lparr>gettimeout_ret := (0, 21)\<rparr>"
  let ?args = "[Opt_f, Opt_w ''21'']"
  have h1: "\<not> explicit_interval ?args" by code_simp
  have h2: "0 \<le>s readback ?e" by code_simp
  have h3: "pc (run ?e ?args (replicate 8 Step)) \<in> {PC_kick, PC_sleep}" by code_simp
  have T: "sint (readback ?e) div 2 = 10" by code_simp
  have s: "Ev_sleep 10 \<in> set (trace (run ?e ?args (replicate 8 Step)))" by code_simp
  from C1_interval_is_half_the_timeout [OF h1 h2 h3] T
  have "sint (period (run ?e ?args (replicate 8 Step))) = 10" by simp
  then show ?thesis using h1 h2 h3 s by simp
qed

text \<open>
  C2.  For every interval \<open>K\<close> given with \<^verbatim>\<open>-k\<close> and every known negotiated timeout \<open>T\<close>
  with \<open>K \<ge> T\<close>, the margin warning is printed exactly once, and \<open>K\<close> is used unchanged as
  the effective interval: \<^verbatim>\<open>period\<close> holds \<open>K\<close> in the loop and every \<^verbatim>\<open>sleep\<close> was
  called with \<open>K\<close>.  The last \<^verbatim>\<open>-k\<close> of the command line is the one that counts.
\<close>

theorem C2_explicit_interval_warned_and_kept:
  assumes "\<not> explicit_interval ys"
    and "0 \<le>s readback e"
    and "readback e \<le>s atoi a"
    and "pc (run e (xs @ Opt_k a # ys) ins) \<in> {PC_kick, PC_sleep}"
  shows "margin_warnings (run e (xs @ Opt_k a # ys) ins) = 1 \<and>
         period (run e (xs @ Opt_k a # ys) ins) = atoi a \<and>
         (\<forall>d. Ev_sleep d \<in> set (trace (run e (xs @ Opt_k a # ys) ins)) \<longrightarrow>
            int d = sint (atoi a))"
proof -
  let ?args = "xs @ Opt_k a # ys"
  have "status (parsed e ?args) = Running"
    using assms(4) by (intro parsed_running_in_loop [of e ?args ins]) auto
  then have K: "period (parsed e ?args) = atoi a"
    using getopt_loop_last_k [OF assms(1)] by (simp add: parsed_def)
  have nn: "0 \<le>s atoi a"
    using assms(2,3) by (simp add: word_sle_eq)
  then have ne: "atoi a \<noteq> - 1" by auto
  have N: "negotiated (period (parsed e ?args)) (readback e) = atoi a"
    using K ne by (simp add: negotiated_eq)
  have 1: "margin_warnings (run e ?args ins) = 1"
    using margin_in_loop [of e ?args ins] assms(2,3,4) K by auto
  have 2: "period (run e ?args ins) = atoi a"
    using period_in_loop [OF assms(4)] N by simp
  have 3: "\<forall>d. Ev_sleep d \<in> set (trace (run e ?args ins)) \<longrightarrow> int d = sint (atoi a)"
  proof (intro allI impI)
    fix d
    assume "Ev_sleep d \<in> set (trace (run e ?args ins))"
    then have "d = unat (atoi a)"
      using sleeps_in_run [of d e ?args ins] N by simp
    then show "int d = sint (atoi a)" using unat_nonneg [OF nn] by simp
  qed
  show ?thesis using 1 2 3 by simp
qed

theorem C2_witness:
  "\<not> explicit_interval [Opt_V] \<and> 0 \<le>s readback env_ok \<and> readback env_ok \<le>s atoi ''25'' \<and>
   pc (run env_ok ([Opt_f] @ Opt_k ''25'' # [Opt_V]) (replicate 9 Step)) \<in> {PC_kick, PC_sleep} \<and>
   margin_warnings (run env_ok ([Opt_f] @ Opt_k ''25'' # [Opt_V]) (replicate 9 Step)) = 1 \<and>
   period (run env_ok ([Opt_f] @ Opt_k ''25'' # [Opt_V]) (replicate 9 Step)) = 25"
proof -
  have h1: "\<not> explicit_interval [Opt_V]" by code_simp
  have h2: "0 \<le>s readback env_ok" by code_simp
  have h3: "readback env_ok \<le>s atoi ''25''" by code_simp
  have h4: "pc (run env_ok ([Opt_f] @ Opt_k ''25'' # [Opt_V]) (replicate 9 Step))
      \<in> {PC_kick, PC_sleep}" by code_simp
  have a: "atoi ''25'' = 25" by code_simp
  from C2_explicit_interval_warned_and_kept [OF h1 h2 h3 h4] a
  show ?thesis using h1 h2 h3 h4 by simp
qed

text \<open>
  C3.  When the negotiated timeout cannot be read back (\<^verbatim>\<open>wdt_get_timeout\<close> returns a
  negative value) and no kick interval was given, the effective interval is the fixed default
  \<^verbatim>\<open>WDT_KICK_DEFAULT\<close>, which is 10 seconds, half of the default requested timeout of 20,
  whatever timeout \<^verbatim>\<open>-w\<close> asked for.
\<close>

theorem C3_fallback_interval:
  assumes "\<not> explicit_interval args"
    and "readback e <s 0"
    and "pc (run e args ins) \<in> {PC_kick, PC_sleep}"
  shows "period (run e args ins) = WDT_KICK_DEFAULT \<and>
         sint WDT_KICK_DEFAULT = 10 \<and>
         sint WDT_KICK_DEFAULT = sint WDT_TIMEOUT_DEFAULT div 2 \<and>
         sint WDT_TIMEOUT_DEFAULT = 20 \<and>
         (\<forall>d. Ev_sleep d \<in> set (trace (run e args ins)) \<longrightarrow> d = 10)"
proof -
  have K: "period (parsed e args) = - 1"
    using assms(1) by (simp add: parsed_def getopt_loop_period_no_k)
  have N: "negotiated (period (parsed e args)) (readback e) = WDT_KICK_DEFAULT"
    using assms(2) K by (simp add: negotiated_eq)
  have 1: "period (run e args ins) = WDT_KICK_DEFAULT"
    using period_in_loop [OF assms(3)] N by simp
  have 2: "\<forall>d. Ev_sleep d \<in> set (trace (run e args ins)) \<longrightarrow> d = 10"
    using sleeps_in_run [of _ e args ins] N by (auto simp add: WDT_KICK_DEFAULT_eq)
  show ?thesis using 1 2 by (simp add: WDT_KICK_DEFAULT_eq WDT_TIMEOUT_DEFAULT_def)
qed

theorem C3_witness:
  "\<not> explicit_interval [Opt_f, Opt_w ''60''] \<and>
   readback (env_ok\<lparr>gettimeout_ret := (- 1, 0)\<rparr>) <s 0 \<and>
   pc (run (env_ok\<lparr>gettimeout_ret := (- 1, 0)\<rparr>) [Opt_f, Opt_w ''60''] (replicate 8 Step))
     \<in> {PC_kick, PC_sleep} \<and>
   timeout (run (env_ok\<lparr>gettimeout_ret := (- 1, 0)\<rparr>) [Opt_f, Opt_w ''60'']
     (replicate 8 Step)) = 60 \<and>
   period (run (env_ok\<lparr>gettimeout_ret := (- 1, 0)\<rparr>) [Opt_f, Opt_w ''60'']
     (replicate 8 Step)) = 10"
proof -
  let ?e = "env_ok\<lparr>gettimeout_ret := (- 1, 0)\<rparr>"
  let ?args = "[Opt_f, Opt_w ''60'']"
  have h1: "\<not> explicit_interval ?args" by code_simp
  have h2: "readback ?e <s 0" by code_simp
  have h3: "pc (run ?e ?args (replicate 8 Step)) \<in> {PC_kick, PC_sleep}" by code_simp
  have t: "timeout (run ?e ?args (replicate 8 Step)) = 60" by code_simp
  from C3_fallback_interval [OF h1 h2 h3]
  show ?thesis using h1 h2 h3 t by (simp add: WDT_KICK_DEFAULT_eq)
qed

text \<open>
  C9.  \<^verbatim>\<open>-k -1\<close> on the command line cannot be told from no \<^verbatim>\<open>-k\<close> at all: \<open>-1\<close> is the
  value \<^verbatim>\<open>period\<close> starts with, so the run is the same, state and trace, as the run of the
  command line without it; the interval is then derived from the timeout read back, or is
  the fixed default; and \<^verbatim>\<open>sleep\<close> is never called with \<open>-1\<close> (as \<^verbatim>\<open>unsigned\<close>:
  4294967295).
\<close>

theorem C9_minus_one_is_no_interval:
  assumes "\<not> explicit_interval xs" and "\<not> explicit_interval ys"
  shows "run e (xs @ Opt_k ''-1'' # ys) ins = run e (xs @ ys) ins \<and>
         (pc (run e (xs @ Opt_k ''-1'' # ys) ins) \<in> {PC_kick, PC_sleep} \<longrightarrow>
            period (run e (xs @ Opt_k ''-1'' # ys) ins) =
              (if readback e <s 0 then WDT_KICK_DEFAULT else c_div (readback e) 2)) \<and>
         Ev_sleep (unat (- 1 :: c_int)) \<notin> set (trace (run e (xs @ Opt_k ''-1'' # ys) ins))"
proof -
  let ?args = "xs @ Opt_k ''-1'' # ys"
  have P: "parsed e ?args = parsed e (xs @ ys)"
    using assms(1) by (simp add: parsed_def getopt_loop_k_minus_one)
  have 1: "run e ?args ins = run e (xs @ ys) ins"
    using P by (rule run_args)
  have "\<not> explicit_interval (xs @ ys)"
    using assms by (simp add: explicit_interval_def)
  then have K: "period (parsed e ?args) = - 1"
    using P by (simp add: parsed_def getopt_loop_period_no_k)
  have 2: "pc (run e ?args ins) \<in> {PC_kick, PC_sleep} \<longrightarrow>
      period (run e ?args ins) =
        (if readback e <s 0 then WDT_KICK_DEFAULT else c_div (readback e) 2)"
    using period_in_loop [of e ?args ins] K by (simp add: negotiated_eq)
  have 3: "Ev_sleep (unat (- 1 :: c_int)) \<notin> set (trace (run e ?args ins))"
  proof
    assume "Ev_sleep (unat (- 1 :: c_int)) \<in> set (trace (run e ?args ins))"
    then have "unat (- 1 :: c_int) = unat (negotiated (period (parsed e ?args)) (readback e))"
      by (rule sleeps_in_run)
    then have "negotiated (period (parsed e ?args)) (readback e) = - 1"
      by (simp only: word_unat_eq_iff)
    then show False using negotiated_not_minus_one by blast
  qed
  show ?thesis using 1 2 3 by simp
qed

theorem C9_witness:
  "\<not> explicit_interval [Opt_f] \<and> \<not> explicit_interval [Opt_V] \<and>
   run env_ok ([Opt_f] @ Opt_k ''-1'' # [Opt_V]) (replicate 9 Step) =
     run env_ok ([Opt_f] @ [Opt_V]) (replicate 9 Step) \<and>
   pc (run env_ok ([Opt_f] @ Opt_k ''-1'' # [Opt_V]) (replicate 9 Step)) \<in> {PC_kick, PC_sleep} \<and>
   period (run env_ok ([Opt_f] @ Opt_k ''-1'' # [Opt_V]) (replicate 9 Step)) = 10"
proof -
  have h1: "\<not> explicit_interval [Opt_f]" by code_simp
  have h2: "\<not> explicit_interval [Opt_V]" by code_simp
  have h3: "pc (run env_ok ([Opt_f] @ Opt_k ''-1'' # [Opt_V]) (replicate 9 Step))
      \<in> {PC_kick, PC_sleep}" by code_simp
  have T: "\<not> readback env_ok <s 0" "c_div (readback env_ok) 2 = 10" by code_simp+
  note th = C9_minus_one_is_no_interval [OF h1 h2, of env_ok "replicate 9 Step"]
  have a: "run env_ok ([Opt_f] @ Opt_k ''-1'' # [Opt_V]) (replicate 9 Step) =
      run env_ok ([Opt_f] @ [Opt_V]) (replicate 9 Step)"
    using th by (rule conjunct1)
  have "period (run env_ok ([Opt_f] @ Opt_k ''-1'' # [Opt_V]) (replicate 9 Step)) =
      (if readback env_ok <s 0 then WDT_KICK_DEFAULT else c_div (readback env_ok) 2)"
    using th h3 by blast
  then have p: "period (run env_ok ([Opt_f] @ Opt_k ''-1'' # [Opt_V]) (replicate 9 Step)) = 10"
    using T by simp
  show ?thesis using h1 h2 a h3 p by blast
qed

subsection \<open>Which events the option loop and the phases can add\<close>

lemma getopt_loop_handler:
  "(\<forall>s. handler p s = (Ev_sigaction s \<in> set (trace p))) \<Longrightarrow>
   handler (getopt_loop e args p) s = (Ev_sigaction s \<in> set (trace (getopt_loop e args p)))"
  by (induction e args p rule: getopt_loop.induct) (auto simp add: split_beta Let_def)

lemma getopt_loop_sigaction:
  "Ev_sigaction s \<in> set (trace (getopt_loop e args p)) \<Longrightarrow>
   Ev_sigaction s \<in> set (trace p) \<or> Opt_s \<in> set args \<and> s \<noteq> SIGKILL"
  by (induction e args p rule: getopt_loop.induct) (auto simp add: split_beta Let_def)

lemma handler_event_cases:
  "is_handler ev \<or> is_write_or_close ev \<Longrightarrow> \<not> is_log ev \<and> \<not> from_getopt ev"
  by (cases ev) simp_all

lemma main_step_mem:
  assumes "is_handler ev \<or> is_write_or_close ev"
  shows "ev \<in> set (trace (main_step e args p)) \<longleftrightarrow> ev \<in> set (trace p)"
proof -
  have n: "\<not> is_log ev" "\<not> from_getopt ev"
    using handler_event_cases [OF assms] by simp_all
  show ?thesis
  proof (cases "pc p")
    case PC_getopt
    then show ?thesis using n by (simp add: main_step_def getopt_loop_mem)
  next
    case PC_daemon
    then show ?thesis using n assms
      by (cases ev) (simp_all add: main_step_def do_background_def Let_def)
  next
    case PC_open
    then show ?thesis using n assms
      by (cases ev) (simp_all add: main_step_def do_open_def Let_def)
  next
    case PC_set
    then show ?thesis using n assms by (cases ev) (simp_all add: main_step_def)
  next
    case PC_get
    then show ?thesis using n assms
      by (cases ev) (simp_all add: main_step_def do_get_def split_beta Let_def)
  next
    case PC_derive
    then show ?thesis using n assms
      by (cases ev) (simp_all add: main_step_def do_derive_def Let_def)
  next
    case PC_kick
    then show ?thesis using n assms by (cases ev) (simp_all add: main_step_def)
  next
    case PC_sleep
    then show ?thesis using n assms by (cases ev) (simp_all add: main_step_def do_sleep_def)
  qed
qed

lemma main_step_sigaction:
  "pc p \<noteq> PC_getopt \<Longrightarrow>
   Ev_sigaction s \<in> set (trace (main_step e args p)) \<longleftrightarrow> Ev_sigaction s \<in> set (trace p)"
  by (cases "pc p")
     (simp_all add: main_step_def do_background_def do_open_def do_get_def do_derive_def
        do_sleep_def split_beta Let_def)

lemma main_step_handler:
  "pc p \<noteq> PC_getopt \<Longrightarrow> handler (main_step e args p) = handler p"
  by (cases "pc p")
     (simp_all add: main_step_def do_background_def do_open_def do_get_def do_derive_def
        do_sleep_def split_beta Let_def)

subsection \<open>The invariant of the signal dispositions holds in every run\<close>

lemma sig_inv_deliver:
  assumes "sig_inv args p"
  shows "sig_inv args (deliver s p)"
proof (cases "handler p s")
  case True
  let ?q = "deliver s p"
  have q: "?q = wdt_magic_close s (emit (Ev_handler s) p)"
    using True by (simp add: deliver_def)
  have a: "\<forall>s'. handler ?q s' = (Ev_sigaction s' \<in> set (trace ?q))"
    using assms by (simp add: q sig_inv_def)
  have b: "\<forall>s'. Ev_sigaction s' \<in> set (trace ?q) \<longrightarrow> Opt_s \<in> set args \<and> s' \<noteq> SIGKILL"
    using assms by (simp add: q sig_inv_def)
  have c: "status ?q \<noteq> Running" by (simp add: q)
  have d: "Ev_handler s \<in> set (trace ?q)" by (simp add: q)
  show ?thesis unfolding sig_inv_def using a b c d by blast
next
  case False
  then show ?thesis using assms by (simp add: sig_inv_def deliver_def)
qed

lemma sig_inv_step:
  assumes "sig_inv args p" "neg_inv e args p" "status p = Running"
  shows "sig_inv args (main_step e args p)"
proof (cases "pc p = PC_getopt")
  case True
  then have p: "p = proc0" using assms by (simp add: neg_inv_def)
  have "\<forall>s. handler proc0 s = (Ev_sigaction s \<in> set (trace proc0))" by simp
  then have 1: "\<forall>s. handler (parsed e args) s = (Ev_sigaction s \<in> set (trace (parsed e args)))"
    unfolding parsed_def using getopt_loop_handler by blast
  have 2: "\<forall>s. Ev_sigaction s \<in> set (trace (parsed e args)) \<longrightarrow> Opt_s \<in> set args \<and> s \<noteq> SIGKILL"
    unfolding parsed_def using getopt_loop_sigaction [of _ e args proc0] by auto
  have 3: "Ev_handler s \<notin> set (trace (parsed e args))"
        "Ev_write f b \<notin> set (trace (parsed e args))"
        "Ev_close f \<notin> set (trace (parsed e args))" for s f b
    by (simp_all add: parsed_def getopt_loop_mem)
  show ?thesis using 1 2 3 by (simp add: p main_step_getopt sig_inv_def)
next
  case False
  have m: "ev \<in> set (trace (main_step e args p)) \<longleftrightarrow> ev \<in> set (trace p)"
    if "is_handler ev \<or> is_write_or_close ev" for ev
    using that by (rule main_step_mem)
  have "Ev_handler s \<in> set (trace (main_step e args p)) \<longleftrightarrow> Ev_handler s \<in> set (trace p)"
       "Ev_write f b \<in> set (trace (main_step e args p)) \<longleftrightarrow> Ev_write f b \<in> set (trace p)"
       "Ev_close f \<in> set (trace (main_step e args p)) \<longleftrightarrow> Ev_close f \<in> set (trace p)"
    for s f b
    by (simp_all add: m)
  then show ?thesis
    using assms(1,3) False by (simp add: sig_inv_def main_step_sigaction main_step_handler)
qed

lemma sig_inv_run: "sig_inv args (run e args ins)"
proof (induction ins rule: rev_induct)
  case Nil
  show ?case by (simp add: run_Nil sig_inv_def)
next
  case (snoc i ins)
  show ?case
  proof (cases "status (run e args ins) = Running")
    case True
    then show ?thesis using snoc sig_inv_step neg_inv_run [of e args ins] sig_inv_deliver
      by (cases i) (simp_all add: run_snoc react_def)
  next
    case False
    then show ?thesis using snoc by (simp add: run_snoc react_def)
  qed
qed

lemma handler_origin:
  "Ev_handler s \<in> set (trace (run e args ins)) \<Longrightarrow>
   \<exists>pre post. ins = pre @ Signal s # post \<and> status (run e args pre) = Running \<and>
      handler (run e args pre) s"
proof (induction ins rule: rev_induct)
  case Nil
  then show ?case by (simp add: run_Nil)
next
  case (snoc i ins)
  show ?case
  proof (cases "Ev_handler s \<in> set (trace (run e args ins))")
    case True
    then obtain pre post where "ins = pre @ Signal s # post"
      "status (run e args pre) = Running" "handler (run e args pre) s"
      using snoc.IH by blast
    then have "ins @ [i] = pre @ Signal s # (post @ [i]) \<and>
        status (run e args pre) = Running \<and> handler (run e args pre) s"
      by simp
    then show ?thesis by blast
  next
    case False
    have new: "Ev_handler s \<in> set (trace (react e args (run e args ins) i))"
      using snoc.prems by (simp add: run_snoc)
    have r: "status (run e args ins) = Running"
    proof (rule ccontr)
      assume "status (run e args ins) \<noteq> Running"
      then have "react e args (run e args ins) i = run e args ins"
        by (simp add: react_def)
      then show False using new False by simp
    qed
    have "i = Signal s \<and> handler (run e args ins) s"
      using new False r
      by (cases i) (auto simp add: react_def main_step_mem deliver_def split: if_splits)
    then have "ins @ [i] = ins @ Signal s # [] \<and> status (run e args ins) = Running \<and>
        handler (run e args ins) s"
      using r by simp
    then show ?thesis by blast
  qed
qed

lemma handler_armed:
  "handler (run e args ins) s \<longleftrightarrow> Ev_sigaction s \<in> set (trace (run e args ins))"
  using sig_inv_run [of args e ins] by (simp add: sig_inv_def)

lemma no_handler_no_write:
  "\<forall>s. Ev_handler s \<notin> set (trace (run e args ins)) \<Longrightarrow>
   (\<forall>f b. Ev_write f b \<notin> set (trace (run e args ins))) \<and>
   (\<forall>f. Ev_close f \<notin> set (trace (run e args ins)))"
  using sig_inv_run [of args e ins] by (simp add: sig_inv_def)

lemma running_no_handler:
  "status (run e args ins) = Running \<Longrightarrow> Ev_handler s \<notin> set (trace (run e args ins))"
  using sig_inv_run [of args e ins] by (simp add: sig_inv_def)

lemma list_ex_is_handler: "list_ex is_handler tr \<longleftrightarrow> (\<exists>s. Ev_handler s \<in> set tr)"
proof (induction tr)
  case Nil
  show ?case by simp
next
  case (Cons ev tr)
  then show ?case by (cases ev) auto
qed

lemma filter_write_or_close:
  "filter is_write_or_close tr = [] \<longleftrightarrow>
   (\<forall>f b. Ev_write f b \<notin> set tr) \<and> (\<forall>f. Ev_close f \<notin> set tr)"
proof (induction tr)
  case Nil
  show ?case by simp
next
  case (Cons ev tr)
  then show ?case by (cases ev) auto
qed

subsection \<open>When the handler is installed, and what it leaves in the trace\<close>

lemma getopt_loop_armed:
  "status (getopt_loop e args p) = Running \<Longrightarrow>
   handler (getopt_loop e args p) s =
     (handler p s \<or> Opt_s \<in> set args \<and> (s = SIGINT \<or> s = SIGTERM))"
  by (induction e args p rule: getopt_loop.induct) (auto simp add: split_beta Let_def)

lemma armed_iff:
  assumes "status (run e args pre) = Running"
  shows "handler (run e args pre) s \<longleftrightarrow>
     (s = SIGINT \<or> s = SIGTERM) \<and> Opt_s \<in> set args \<and> pc (run e args pre) \<noteq> PC_getopt"
proof (cases "pc (run e args pre) = PC_getopt")
  case True
  then have "run e args pre = proc0"
    using neg_inv_run [of e args pre] assms by (simp add: neg_inv_def)
  then show ?thesis using True by simp
next
  case False
  then have "handler (run e args pre) = handler (parsed e args)"
    and "status (parsed e args) = Running"
    using neg_inv_run [of e args pre] by (simp_all add: neg_inv_def)
  then show ?thesis
    using False getopt_loop_armed [of e args proc0 s] by (auto simp add: parsed_def)
qed

lemma run_append: "run e args (xs @ ys) = foldl (react e args) (run e args xs) ys"
  by (simp add: run_def)

lemma dead_stays: "status p \<noteq> Running \<Longrightarrow> foldl (react e args) p ys = p"
  by (induction ys) (simp_all add: react_def)

lemma take_signal:
  "take (Suc (length pre)) ins = pre @ [Signal s] \<longleftrightarrow> (\<exists>post. ins = pre @ Signal s # post)"
proof
  assume t: "take (Suc (length pre)) ins = pre @ [Signal s]"
  have "ins = take (Suc (length pre)) ins @ drop (Suc (length pre)) ins" by simp
  then have "ins = pre @ Signal s # drop (Suc (length pre)) ins" using t by simp
  then show "\<exists>post. ins = pre @ Signal s # post" by blast
next
  assume "\<exists>post. ins = pre @ Signal s # post"
  then show "take (Suc (length pre)) ins = pre @ [Signal s]" by auto
qed

lemma wdt_magic_close_writes:
  "filter is_write_or_close (trace (wdt_magic_close s p)) =
     filter is_write_or_close (trace p) @
     (if fd p = - 1 then [] else [Ev_write (fd p) ''V'', Ev_close (fd p)])"
  by (simp add: wdt_magic_close_def Let_def DEBUG_def print_trace)

lemma running_no_write:
  "status (run e args pre) = Running \<Longrightarrow>
   filter is_write_or_close (trace (run e args pre)) = []"
  using running_no_handler [of e args pre] no_handler_no_write [of e args pre]
  by (simp add: filter_write_or_close)

lemma armed_signal_run:
  assumes "armed_signal e args ins pre s"
  shows "run e args ins = wdt_magic_close s (emit (Ev_handler s) (run e args pre))"
proof -
  let ?q = "run e args pre"
  obtain post where i: "ins = (pre @ [Signal s]) @ post"
    using assms by (auto simp add: armed_signal_def take_signal)
  have r: "status ?q = Running" using assms by (simp add: armed_signal_def)
  have "handler ?q s" using assms r by (simp add: armed_signal_def armed_iff)
  then have d: "run e args (pre @ [Signal s]) = wdt_magic_close s (emit (Ev_handler s) ?q)"
    using r by (simp add: run_snoc react_def deliver_def)
  then have "status (run e args (pre @ [Signal s])) \<noteq> Running" by simp
  then have "run e args ins = run e args (pre @ [Signal s])"
    unfolding i run_append by (rule dead_stays)
  then show ?thesis using d by simp
qed

lemma armed_signal_effect:
  assumes "armed_signal e args ins pre s"
  shows "status (run e args ins) = Exited 0"
    and "Ev_handler s \<in> set (trace (run e args ins))"
    and "filter is_write_or_close (trace (run e args ins)) =
      (if fd (run e args pre) = - 1 then []
       else [Ev_write (fd (run e args pre)) ''V'', Ev_close (fd (run e args pre))])"
proof -
  note r = armed_signal_run [OF assms]
  have w: "filter is_write_or_close (trace (run e args pre)) = []"
    using assms by (intro running_no_write) (simp add: armed_signal_def)
  show "status (run e args ins) = Exited 0" by (simp add: r)
  show "Ev_handler s \<in> set (trace (run e args ins))" by (simp add: r)
  show "filter is_write_or_close (trace (run e args ins)) =
      (if fd (run e args pre) = - 1 then []
       else [Ev_write (fd (run e args pre)) ''V'', Ev_close (fd (run e args pre))])"
    using w by (simp add: r wdt_magic_close_writes)
qed

lemma handler_armed_signal:
  assumes "list_ex is_handler (trace (run e args ins))"
  shows "\<exists>pre s. armed_signal e args ins pre s"
proof -
  obtain s where "Ev_handler s \<in> set (trace (run e args ins))"
    using assms by (auto simp add: list_ex_is_handler)
  then obtain pre post where p: "ins = pre @ Signal s # post"
    "status (run e args pre) = Running" "handler (run e args pre) s"
    using handler_origin by blast
  then have "(s = SIGINT \<or> s = SIGTERM) \<and> Opt_s \<in> set args \<and>
      pc (run e args pre) \<noteq> PC_getopt"
    using armed_iff [of e args pre s] by simp
  moreover have "take (Suc (length pre)) ins = pre @ [Signal s]"
    using p(1) by (simp add: take_signal)
  ultimately have "armed_signal e args ins pre s"
    using p(2) by (simp add: armed_signal_def)
  then show ?thesis by blast
qed

subsection \<open>A run in which the device does not open\<close>

lemma open_inv_deliver:
  assumes "open_inv p" "status p = Running"
  shows "open_inv (deliver s p)"
  using assms by (simp add: open_inv_def deliver_def wdt_magic_close_def Let_def)

lemma open_inv_step:
  assumes "open_inv p" "status p = Running" "open_ret e = - 1"
  shows "open_inv (main_step e args p)"
proof -
  have pcs: "pc p = PC_getopt \<or> pc p = PC_daemon \<or> pc p = PC_open"
    using assms(1) by (simp add: open_inv_def)
  then show ?thesis
  proof (elim disjE)
    assume "pc p = PC_getopt"
    then show ?thesis using assms(1,2)
      by (simp add: open_inv_def main_step_def getopt_loop_mem getopt_loop_keeps)
  next
    assume "pc p = PC_daemon"
    then show ?thesis using assms(1,2)
      by (simp add: open_inv_def main_step_def do_background_def Let_def)
  next
    assume pc: "pc p = PC_open"
    let ?q = "main_step e args p"
    have t: "trace ?q = trace p @ [Ev_open WDT_DEVNODE,
        (if sys_log p \<noteq> 0
         then Ev_syslog LOG_ERR (''%s: '' @ ''Failed opening watchdog device, %s'' @ '': %s'' @ nl)
                ([Progname, Str_arg WDT_DEVNODE] @ [Strerror_errno])
         else Ev_stderr (''%s: '' @ ''Failed opening watchdog device, %s'' @ '': %s'' @ nl)
                ([Progname, Str_arg WDT_DEVNODE] @ [Strerror_errno])),
        Ev_exit 1]"
      using pc assms(3) by (simp add: main_step_def do_open_def Let_def PERROR_def print_trace)
    have s: "status ?q = Exited 1" "pc ?q = PC_open" "fd ?q = - 1"
      using pc assms(3) by (simp_all add: main_step_def do_open_def Let_def)
    have pe: "is_perror ''Failed opening watchdog device, %s''
        (if sys_log p \<noteq> 0
         then Ev_syslog LOG_ERR (''%s: '' @ ''Failed opening watchdog device, %s'' @ '': %s'' @ nl)
                ([Progname, Str_arg WDT_DEVNODE] @ [Strerror_errno])
         else Ev_stderr (''%s: '' @ ''Failed opening watchdog device, %s'' @ '': %s'' @ nl)
                ([Progname, Str_arg WDT_DEVNODE] @ [Strerror_errno]))"
      by simp
    have ex: "\<exists>tr ev. trace ?q = tr @ [Ev_open WDT_DEVNODE, ev, Ev_exit 1] \<and>
        is_perror ''Failed opening watchdog device, %s'' ev"
      using t pe by blast
    have n: "(\<forall>f r. Ev_ioctl f r \<notin> set (trace ?q)) \<and> (\<forall>d. Ev_sleep d \<notin> set (trace ?q))"
      using assms(1) unfolding t by (auto simp add: open_inv_def)
    show ?thesis unfolding open_inv_def using s ex n by simp
  qed
qed

lemma open_inv_run:
  assumes "open_ret e = - 1"
  shows "open_inv (run e args ins)"
proof (induction ins rule: rev_induct)
  case Nil
  show ?case by (simp add: run_Nil open_inv_def)
next
  case (snoc i ins)
  show ?case
  proof (cases "status (run e args ins) = Running")
    case True
    then show ?thesis using snoc open_inv_step [OF _ _ assms] open_inv_deliver
      by (cases i) (simp_all add: run_snoc react_def)
  next
    case False
    then show ?thesis using snoc by (simp add: run_snoc react_def)
  qed
qed

section \<open>The claims about shutdown and start-up\<close>

text \<open>
  C4, in the form that holds.  The handler \<^verbatim>\<open>wdt_magic_close\<close> is entered if and only
  if safe-exit was armed by \<^verbatim>\<open>-s\<close> and \<^verbatim>\<open>SIGINT\<close> or \<^verbatim>\<open>SIGTERM\<close> then reached the
  live process.  The graceful stop (the magic byte written, the handle closed) is performed
  if and only if, besides, the handle was open at that moment.  When safe-exit is armed and
  the signal arrives, the process ends with status 0, and the writes and closes of the whole
  run are the byte \<^verbatim>\<open>"V"\<close> written to the handle and the handle closed, or none when the
  handle is still \<open>-1\<close>.  On every other path nothing is written to the device and it is
  never closed.
\<close>

theorem C4_graceful_stop:
  "(list_ex is_handler (trace (run e args ins)) \<longleftrightarrow> (\<exists>pre s. armed_signal e args ins pre s)) \<and>
   (disabled (run e args ins) \<longleftrightarrow>
      (\<exists>pre s. armed_signal e args ins pre s \<and> fd (run e args pre) \<noteq> - 1)) \<and>
   (armed_signal e args ins pre s \<longrightarrow>
      status (run e args ins) = Exited 0 \<and>
      filter is_write_or_close (trace (run e args ins)) =
        (if fd (run e args pre) = - 1 then []
         else [Ev_write (fd (run e args pre)) ''V'', Ev_close (fd (run e args pre))])) \<and>
   (\<not> list_ex is_handler (trace (run e args ins)) \<longrightarrow>
      filter is_write_or_close (trace (run e args ins)) = [] \<and>
      \<not> disabled (run e args ins))"
proof -
  let ?p = "run e args ins"
  have 1: "list_ex is_handler (trace ?p) \<longleftrightarrow> (\<exists>pre s. armed_signal e args ins pre s)"
    using handler_armed_signal [of e args ins] armed_signal_effect(2) [of e args ins]
    by (auto simp add: list_ex_is_handler)
  have 4: "filter is_write_or_close (trace ?p) = [] \<and> \<not> disabled ?p"
    if "\<not> list_ex is_handler (trace ?p)"
  proof -
    have "\<forall>s. Ev_handler s \<notin> set (trace ?p)"
      using that by (simp add: list_ex_is_handler)
    then have "filter is_write_or_close (trace ?p) = []"
      using no_handler_no_write [of e args ins] by (simp add: filter_write_or_close)
    then show ?thesis by (simp add: disabled_def)
  qed
  have 2: "disabled ?p \<longleftrightarrow>
      (\<exists>pre s. armed_signal e args ins pre s \<and> fd (run e args pre) \<noteq> - 1)"
  proof
    assume d: "disabled ?p"
    then have "list_ex is_handler (trace ?p)" using 4 by blast
    then obtain pre s where a: "armed_signal e args ins pre s" using 1 by blast
    have "fd (run e args pre) \<noteq> - 1"
    proof
      assume "fd (run e args pre) = - 1"
      then have "filter is_write_or_close (trace ?p) = []"
        using armed_signal_effect(3) [OF a] by simp
      then show False using d by (simp add: disabled_def)
    qed
    then show "\<exists>pre s. armed_signal e args ins pre s \<and> fd (run e args pre) \<noteq> - 1"
      using a by blast
  next
    assume "\<exists>pre s. armed_signal e args ins pre s \<and> fd (run e args pre) \<noteq> - 1"
    then obtain pre s where a: "armed_signal e args ins pre s"
      and f: "fd (run e args pre) \<noteq> - 1" by blast
    show "disabled ?p"
      using armed_signal_effect(3) [OF a] f by (simp add: disabled_def)
  qed
  have 3: "status ?p = Exited 0 \<and>
      filter is_write_or_close (trace ?p) =
        (if fd (run e args pre) = - 1 then []
         else [Ev_write (fd (run e args pre)) ''V'', Ev_close (fd (run e args pre))])"
    if "armed_signal e args ins pre s"
    using armed_signal_effect(1,3) [OF that] by simp
  show ?thesis using 1 2 3 4 by blast
qed

theorem C4_witness:
  "armed_signal env_ok [Opt_f, Opt_s] [Step, Step, Step, Signal SIGINT, Step]
     [Step, Step, Step] SIGINT \<and>
   fd (run env_ok [Opt_f, Opt_s] [Step, Step, Step]) = 3 \<and>
   list_ex is_handler (trace (run env_ok [Opt_f, Opt_s] [Step, Step, Step, Signal SIGINT, Step])) \<and>
   disabled (run env_ok [Opt_f, Opt_s] [Step, Step, Step, Signal SIGINT, Step]) \<and>
   status (run env_ok [Opt_f, Opt_s] [Step, Step, Step, Signal SIGINT, Step]) = Exited 0 \<and>
   filter is_write_or_close
     (trace (run env_ok [Opt_f, Opt_s] [Step, Step, Step, Signal SIGINT, Step])) =
     [Ev_write 3 ''V'', Ev_close 3] \<and>
   \<not> list_ex is_handler (trace (run env_ok [Opt_f] [Step, Step, Step, Signal SIGTERM, Step])) \<and>
   status (run env_ok [Opt_f] [Step, Step, Step, Signal SIGTERM, Step]) = Killed SIGTERM \<and>
   Ev_open WDT_DEVNODE \<in> set (trace (run env_ok [Opt_f] [Step, Step, Step, Signal SIGTERM, Step])) \<and>
   filter is_write_or_close (trace (run env_ok [Opt_f] [Step, Step, Step, Signal SIGTERM, Step]))
     = [] \<and>
   \<not> disabled (run env_ok [Opt_f] [Step, Step, Step, Signal SIGTERM, Step])"
proof -
  let ?ins = "[Step, Step, Step, Signal SIGINT, Step]"
  let ?ins' = "[Step, Step, Step, Signal SIGTERM, Step]"
  let ?pre = "[Step, Step, Step]"
  have a: "armed_signal env_ok [Opt_f, Opt_s] ?ins ?pre SIGINT" by code_simp
  have f: "fd (run env_ok [Opt_f, Opt_s] ?pre) = 3" by code_simp
  have b: "\<not> list_ex is_handler (trace (run env_ok [Opt_f] ?ins'))" by code_simp
  have c: "status (run env_ok [Opt_f] ?ins') = Killed SIGTERM" by code_simp
  have d: "Ev_open WDT_DEVNODE \<in> set (trace (run env_ok [Opt_f] ?ins'))" by code_simp
  note t1 = C4_graceful_stop [of env_ok "[Opt_f, Opt_s]" ?ins ?pre SIGINT]
  note t2 = C4_graceful_stop [of env_ok "[Opt_f]" ?ins']
  have h: "list_ex is_handler (trace (run env_ok [Opt_f, Opt_s] ?ins))"
    using t1 a by blast
  have f': "fd (run env_ok [Opt_f, Opt_s] ?pre) \<noteq> - 1" unfolding f by simp
  have g: "disabled (run env_ok [Opt_f, Opt_s] ?ins)"
    using t1 a f' by blast
  have s: "status (run env_ok [Opt_f, Opt_s] ?ins) = Exited 0"
    using t1 a by blast
  have "filter is_write_or_close (trace (run env_ok [Opt_f, Opt_s] ?ins)) =
      (if fd (run env_ok [Opt_f, Opt_s] ?pre) = - 1 then []
       else [Ev_write (fd (run env_ok [Opt_f, Opt_s] ?pre)) ''V'',
             Ev_close (fd (run env_ok [Opt_f, Opt_s] ?pre))])"
    using t1 a by blast
  then have w: "filter is_write_or_close (trace (run env_ok [Opt_f, Opt_s] ?ins)) =
      [Ev_write 3 ''V'', Ev_close 3]"
    unfolding f by simp
  have n: "filter is_write_or_close (trace (run env_ok [Opt_f] ?ins')) = [] \<and>
      \<not> disabled (run env_ok [Opt_f] ?ins')"
    using t2 b by blast
  show ?thesis using a f h g s w b c d n by blast
qed

text \<open>
  C4 as the specification words it fails: with \<^verbatim>\<open>-s\<close> given and \<^verbatim>\<open>SIGTERM\<close> arriving
  after the option loop but before the device is opened, safe-exit is armed and the signal is
  delivered, the process exits with status 0, and no graceful stop is performed: nothing is
  written and nothing is closed.
\<close>

theorem C4_counterexample:
  "armed_signal env_ok [Opt_s] [Step, Signal SIGTERM] [Step] SIGTERM \<and>
   handler (run env_ok [Opt_s] [Step]) SIGTERM \<and>
   status (run env_ok [Opt_s] [Step, Signal SIGTERM]) = Exited 0 \<and>
   filter is_write_or_close (trace (run env_ok [Opt_s] [Step, Signal SIGTERM])) = [] \<and>
   \<not> disabled (run env_ok [Opt_s] [Step, Signal SIGTERM])"
  by code_simp

text \<open>
  C5, in the form that holds.  The disable operation does what the claim says only when the handle is
  open and \<^verbatim>\<open>verbose\<close> is off.  In general it is: if the handle is not \<open>-1\<close>, a debug
  message when \<^verbatim>\<open>verbose\<close> is on, then the single byte \<^verbatim>\<open>"V"\<close> written to the handle,
  then the handle closed; and in every case the process ended with status 0.
\<close>

theorem C5_disable_sequence:
  "trace (wdt_magic_close s p) =
     trace p @
     (if fd p = - 1 then []
      else (if verbose p = 0 then []
            else [if sys_log p = 0
                  then Ev_stderr (''%s: '' @ ''Safe exit, disabling HW watchdog.'' @ nl) [Progname]
                  else Ev_syslog LOG_DEBUG (''%s: '' @ ''Safe exit, disabling HW watchdog.'' @ nl)
                         [Progname]]) @
           [Ev_write (fd p) ''V'', Ev_close (fd p)]) @
     [Ev_exit 0] \<and>
   status (wdt_magic_close s p) = Exited 0 \<and>
   (fd p \<noteq> - 1 \<and> verbose p = 0 \<longrightarrow> disable_sequence_exact s p)"
  by (simp add: disable_sequence_exact_def wdt_magic_close_def Let_def DEBUG_def print_trace)

theorem C5_witness:
  "fd (run env_ok [Opt_f, Opt_s] [Step, Step, Step]) \<noteq> - 1 \<and>
   verbose (run env_ok [Opt_f, Opt_s] [Step, Step, Step]) = 0 \<and>
   disable_sequence_exact SIGTERM (run env_ok [Opt_f, Opt_s] [Step, Step, Step]) \<and>
   trace (wdt_magic_close SIGTERM (run env_ok [Opt_f, Opt_s] [Step, Step, Step])) =
     trace (run env_ok [Opt_f, Opt_s] [Step, Step, Step]) @
     [Ev_write 3 ''V'', Ev_close 3, Ev_exit 0]"
proof -
  let ?p = "run env_ok [Opt_f, Opt_s] [Step, Step, Step]"
  have a: "fd ?p \<noteq> - 1" by code_simp
  have b: "verbose ?p = 0" by code_simp
  have f: "fd ?p = 3" by code_simp
  have c: "disable_sequence_exact SIGTERM ?p"
    using C5_disable_sequence [of SIGTERM ?p] a b by blast
  then show ?thesis using a b f by (simp add: disable_sequence_exact_def)
qed

text \<open>
  C5 as the specification words it fails: with \<^verbatim>\<open>-V\<close> the handler first prints a debug
  message, which is one more operation than the three of the claim.
\<close>

theorem C5_counterexample:
  "\<not> disable_sequence_exact SIGTERM (run env_ok [Opt_f, Opt_s, Opt_V] [Step, Step, Step])"
  by code_simp

text \<open>
  C6.  If the device does not open, no ioctl is ever issued (no timeout is set or read, no
  kick) and the process never sleeps; and once the open has been tried, the process has
  printed the error and has exited with status 1: the trace ends with the open, the message
  and the exit.
\<close>

theorem C6_open_failure_is_fatal:
  assumes "open_ret e = - 1"
  shows "(\<forall>f r. Ev_ioctl f r \<notin> set (trace (run e args ins))) \<and>
         (\<forall>d. Ev_sleep d \<notin> set (trace (run e args ins))) \<and>
         (Ev_open WDT_DEVNODE \<in> set (trace (run e args ins)) \<longrightarrow>
            status (run e args ins) = Exited 1 \<and>
            (\<exists>tr ev. trace (run e args ins) = tr @ [Ev_open WDT_DEVNODE, ev, Ev_exit 1] \<and>
               is_perror ''Failed opening watchdog device, %s'' ev))"
  using open_inv_run [OF assms, of args ins] by (simp add: open_inv_def)

theorem C6_witness:
  "open_ret (env_ok\<lparr>open_ret := - 1\<rparr>) = - 1 \<and>
   Ev_open WDT_DEVNODE \<in> set (trace (run (env_ok\<lparr>open_ret := - 1\<rparr>) [Opt_f] (replicate 9 Step))) \<and>
   status (run (env_ok\<lparr>open_ret := - 1\<rparr>) [Opt_f] (replicate 9 Step)) = Exited 1 \<and>
   filter is_log (trace (run (env_ok\<lparr>open_ret := - 1\<rparr>) [Opt_f] (replicate 9 Step))) =
     [Ev_stderr (''%s: Failed opening watchdog device, %s: %s'' @ nl)
        [Progname, Str_arg ''/dev/watchdog'', Strerror_errno]] \<and>
   (\<exists>tr ev. trace (run (env_ok\<lparr>open_ret := - 1\<rparr>) [Opt_f] (replicate 9 Step)) =
      tr @ [Ev_open WDT_DEVNODE, ev, Ev_exit 1] \<and>
      is_perror ''Failed opening watchdog device, %s'' ev)"
proof -
  let ?e = "env_ok\<lparr>open_ret := - 1\<rparr>"
  let ?p = "run ?e [Opt_f] (replicate 9 Step)"
  have h: "open_ret ?e = - 1" by code_simp
  have a: "Ev_open WDT_DEVNODE \<in> set (trace ?p)" by code_simp
  have l: "filter is_log (trace ?p) =
     [Ev_stderr (''%s: Failed opening watchdog device, %s: %s'' @ nl)
        [Progname, Str_arg ''/dev/watchdog'', Strerror_errno]]" by code_simp
  from C6_open_failure_is_fatal [OF h, of "[Opt_f]" "replicate 9 Step"] a
  have "status ?p = Exited 1 \<and>
      (\<exists>tr ev. trace ?p = tr @ [Ev_open WDT_DEVNODE, ev, Ev_exit 1] \<and>
         is_perror ''Failed opening watchdog device, %s'' ev)"
    by blast
  then show ?thesis using h a l by blast
qed

text \<open>
  C10.  If safe-exit is armed and an interrupt or termination signal reaches the process
  while the handle is still \<open>-1\<close>, the handler only exits with status 0: after it was
  entered the one thing that happens is the exit, and nothing has been written to a handle
  or closed.
\<close>

theorem C10_signal_before_open:
  assumes "status (run e args pre) = Running"
    and "Ev_sigaction s \<in> set (trace (run e args pre))"
    and "fd (run e args pre) = - 1"
  shows "status (run e args (pre @ [Signal s])) = Exited 0 \<and>
         trace (run e args (pre @ [Signal s])) =
           trace (run e args pre) @ [Ev_handler s, Ev_exit 0] \<and>
         filter is_write_or_close (trace (run e args (pre @ [Signal s]))) = []"
proof -
  have h: "handler (run e args pre) s" using assms(2) by (simp add: handler_armed)
  have r: "run e args (pre @ [Signal s]) =
      wdt_magic_close s (emit (Ev_handler s) (run e args pre))"
    using assms(1) h by (simp add: run_snoc react_def deliver_def)
  have t: "trace (run e args (pre @ [Signal s])) =
      trace (run e args pre) @ [Ev_handler s, Ev_exit 0]"
    using assms(3) by (simp add: r wdt_magic_close_def)
  have "\<forall>s. Ev_handler s \<notin> set (trace (run e args pre))"
    using assms(1) running_no_handler by blast
  then have "filter is_write_or_close (trace (run e args pre)) = []"
    using no_handler_no_write by (simp add: filter_write_or_close)
  then have "filter is_write_or_close (trace (run e args (pre @ [Signal s]))) = []"
    by (simp add: t)
  then show ?thesis using t by (simp add: r)
qed

theorem C10_witness:
  "status (run env_ok [Opt_s] [Step]) = Running \<and>
   Ev_sigaction SIGINT \<in> set (trace (run env_ok [Opt_s] [Step])) \<and>
   fd (run env_ok [Opt_s] [Step]) = - 1 \<and>
   status (run env_ok [Opt_s] ([Step] @ [Signal SIGINT])) = Exited 0 \<and>
   trace (run env_ok [Opt_s] ([Step] @ [Signal SIGINT])) =
     [Ev_sigaction SIGINT, Ev_sigaction SIGTERM, Ev_handler SIGINT, Ev_exit 0]"
proof -
  have h1: "status (run env_ok [Opt_s] [Step]) = Running" by code_simp
  have h2: "Ev_sigaction SIGINT \<in> set (trace (run env_ok [Opt_s] [Step]))" by code_simp
  have h3: "fd (run env_ok [Opt_s] [Step]) = - 1" by code_simp
  have t: "trace (run env_ok [Opt_s] [Step]) = [Ev_sigaction SIGINT, Ev_sigaction SIGTERM]"
    by code_simp
  from C10_signal_before_open [OF h1 h2 h3] t
  show ?thesis using h1 h2 h3 by simp
qed

subsection \<open>Runs without signals\<close>

lemma steps_0: "steps e args 0 = proc0"
  by (simp add: steps_def run_Nil)

lemma steps_Suc: "steps e args (Suc n) = react e args (steps e args n) Step"
proof -
  have "replicate (Suc n) Step = replicate n Step @ [Step]"
    by (simp add: replicate_append_same)
  then show ?thesis by (simp only: steps_def run_snoc)
qed

lemma steps_Suc_running:
  "status (steps e args n) = Running \<Longrightarrow>
   steps e args (Suc n) = main_step e args (steps e args n)"
  by (simp add: steps_Suc react_def)

lemma neg_inv_steps: "neg_inv e args (steps e args n)"
  by (simp add: steps_def neg_inv_run)

lemma sleep_inv_steps: "sleep_inv e args (steps e args n)"
  by (simp add: steps_def sleep_inv_run)

lemma main_step_status:
  assumes "status p = Running" "pc p \<noteq> PC_getopt"
    and "pc p = PC_daemon \<longrightarrow> background p = 0 \<or> daemonize_ret e = 0"
    and "pc p = PC_open \<longrightarrow> open_ret e \<noteq> - 1"
  shows "status (main_step e args p) = Running"
  using assms
  by (cases "pc p")
     (auto simp add: main_step_def do_background_def do_open_def do_get_def do_derive_def
        do_sleep_def split_beta Let_def)

lemma main_step_pc:
  assumes "status (main_step e args p) = Running"
  shows "pc (main_step e args p) =
     (case pc p of PC_getopt \<Rightarrow> PC_daemon | PC_daemon \<Rightarrow> PC_open | PC_open \<Rightarrow> PC_set
      | PC_set \<Rightarrow> PC_get | PC_get \<Rightarrow> PC_derive | PC_derive \<Rightarrow> PC_kick
      | PC_kick \<Rightarrow> PC_sleep | PC_sleep \<Rightarrow> PC_kick)"
  using assms by (cases "pc p") (simp_all add: main_step_def)

lemma running_forever:
  assumes "startup_ok e args"
  shows "status (steps e args n) = Running \<and> pc (steps e args n) = phase_at n"
proof (induction n)
  case 0
  show ?case by (simp add: steps_0 phase_at_def)
next
  case (Suc n)
  let ?p = "steps e args n"
  have st: "steps e args (Suc n) = main_step e args ?p"
    using Suc by (simp add: steps_Suc_running)
  have r: "status (main_step e args ?p) = Running"
  proof (cases "n = 0")
    case True
    then show ?thesis using assms
      by (simp add: steps_0 main_step_getopt startup_ok_def)
  next
    case False
    then have ng: "pc ?p \<noteq> PC_getopt" using Suc by (simp add: phase_at_def)
    then have "background ?p = background (parsed e args)"
      using neg_inv_steps [of e args n] by (simp add: neg_inv_def)
    then show ?thesis
      using Suc ng assms by (intro main_step_status) (auto simp add: startup_ok_def)
  qed
  have "pc (main_step e args ?p) = phase_at (Suc n)"
    using main_step_pc [OF r] Suc by (auto simp add: phase_at_def)
  then show ?case using r st by simp
qed

subsection \<open>The loop\<close>

lemma elapsed_append: "elapsed (xs @ ys) = elapsed xs + elapsed ys"
  by (induction xs rule: elapsed.induct) simp_all

lemma kick_times_append:
  "kick_times t (xs @ ys) = kick_times t xs @ kick_times (t + elapsed xs) ys"
  by (induction t xs rule: kick_times.induct) (simp_all add: add.assoc)

lemma quiet_trace:
  assumes "\<forall>d. Ev_sleep d \<notin> set tr" "\<forall>f. Ev_ioctl f WDIOC_KEEPALIVE \<notin> set tr"
  shows "kick_times t tr = [] \<and> elapsed tr = 0"
  using assms by (induction t tr rule: kick_times.induct) auto

lemma new_events_wdt_kick:
  "new_events wdt_kick p =
     (if verbose p \<noteq> 0
      then [if sys_log p \<noteq> 0
            then Ev_syslog LOG_DEBUG (''%s: '' @ ''Kicking watchdog.'' @ nl) [Progname]
            else Ev_stderr (''%s: '' @ ''Kicking watchdog.'' @ nl) [Progname]]
      else []) @
     [Ev_ioctl (fd p) WDIOC_KEEPALIVE]"
  by (simp add: new_events_def wdt_kick_def Let_def DEBUG_def print_trace)

lemma trace_wdt_kick: "trace (wdt_kick p) = trace p @ new_events wdt_kick p"
  by (simp add: new_events_wdt_kick) (simp add: wdt_kick_def Let_def DEBUG_def print_trace)

lemma kick_times_new_events:
  "kick_times t (new_events wdt_kick p) = [t]" "elapsed (new_events wdt_kick p) = 0"
  by (simp_all add: new_events_wdt_kick)

lemma cycle:
  assumes "pc p = PC_kick" "status p = Running"
  shows "trace (main_step e args (main_step e args p)) =
           trace p @ new_events wdt_kick p @ [Ev_sleep (unat (period p))]"
    and "verbose (main_step e args (main_step e args p)) = verbose p"
    and "sys_log (main_step e args (main_step e args p)) = sys_log p"
    and "fd (main_step e args (main_step e args p)) = fd p"
    and "period (main_step e args (main_step e args p)) = period p"
  using assms by (simp_all add: main_step_def do_sleep_def trace_wdt_kick)

lemma loop_trace:
  assumes "startup_ok e args"
  shows "trace (steps e args (6 + 2 * n)) =
           trace (steps e args 6) @
           concat (replicate n (new_events wdt_kick (steps e args 6) @
             [Ev_sleep (unat (period (steps e args 6)))])) \<and>
         verbose (steps e args (6 + 2 * n)) = verbose (steps e args 6) \<and>
         sys_log (steps e args (6 + 2 * n)) = sys_log (steps e args 6) \<and>
         fd (steps e args (6 + 2 * n)) = fd (steps e args 6) \<and>
         period (steps e args (6 + 2 * n)) = period (steps e args 6)"
proof (induction n)
  case 0
  show ?case by simp
next
  case (Suc n)
  let ?p = "steps e args (6 + 2 * n)"
  have r: "status (steps e args m) = Running" for m
    using running_forever [OF assms] by simp
  have pc: "pc ?p = PC_kick"
    using running_forever [OF assms, of "6 + 2 * n"] by (simp add: phase_at_def)
  have "steps e args (6 + 2 * Suc n) = steps e args (Suc (Suc (6 + 2 * n)))" by simp
  also have "\<dots> = main_step e args (steps e args (Suc (6 + 2 * n)))"
    using r by (rule steps_Suc_running)
  also have "steps e args (Suc (6 + 2 * n)) = main_step e args ?p"
    using r by (rule steps_Suc_running)
  finally have st: "steps e args (6 + 2 * Suc n) = main_step e args (main_step e args ?p)" .
  have ne: "new_events wdt_kick ?p = new_events wdt_kick (steps e args 6)"
    using Suc by (simp add: new_events_wdt_kick)
  have cs: "concat (replicate (Suc n) c) = concat (replicate n c) @ c" for c :: "event list"
    by (induction n) simp_all
  show ?case
    unfolding st using cycle [OF pc r, of e args] Suc ne
    by (simp add: cs del: replicate.simps)
qed

lemma kick_times_cycles:
  "kick_times t (concat (replicate n (new_events wdt_kick p @ [Ev_sleep d]))) =
     map (\<lambda>k. t + k * d) [0..<n]"
proof (induction n arbitrary: t)
  case 0
  show ?case by simp
next
  case (Suc n)
  have "map (\<lambda>k. t + k * d) [0..<Suc n] = t # map (\<lambda>k. (t + d) + k * d) [0..<n]"
    by (simp add: map_upt_Suc del: upt_Suc)
  then show ?case
    using Suc [of "t + d"]
    by (simp add: kick_times_append kick_times_new_events elapsed_append del: upt_Suc)
qed

lemma gaps_cycles:
  assumes "int d \<le> I"
  shows "gaps_at_most I (map (\<lambda>k. t + k * d) [0..<n])"
proof (induction n arbitrary: t)
  case 0
  show ?case by simp
next
  case (Suc n)
  note IH = Suc.IH
  show ?case
  proof (cases n)
    case 0
    then show ?thesis by simp
  next
    case (Suc m)
    have 1: "map (\<lambda>k. t + k * d) [0..<Suc (Suc m)] =
        t # map (\<lambda>k. (t + d) + k * d) [0..<Suc m]"
      by (simp add: map_upt_Suc del: upt_Suc)
    have 2: "map (\<lambda>k. (t + d) + k * d) [0..<Suc m] =
        (t + d) # map (\<lambda>k. (t + d + d) + k * d) [0..<m]"
      by (simp add: map_upt_Suc del: upt_Suc)
    have "gaps_at_most I (map (\<lambda>k. (t + d) + k * d) [0..<Suc m])"
      using IH [of "t + d"] Suc by simp
    then have "gaps_at_most I (t # map (\<lambda>k. (t + d) + k * d) [0..<Suc m])"
      using assms unfolding 2 by simp
    then show ?thesis unfolding Suc 1 .
  qed
qed

lemma before_loop:
  assumes "startup_ok e args"
  shows "kick_times t (trace (steps e args 6)) = [] \<and> elapsed (trace (steps e args 6)) = 0"
proof -
  let ?p = "steps e args 5"
  have r: "status ?p = Running" and pc: "pc ?p = PC_derive"
    using running_forever [OF assms, of 5] by (simp_all add: phase_at_def)
  have "steps e args 6 = steps e args (Suc 5)" by simp
  also have "\<dots> = main_step e args ?p" using r by (rule steps_Suc_running)
  finally have st: "steps e args 6 = main_step e args ?p" .
  have q: "(\<forall>d. Ev_sleep d \<notin> set (trace ?p)) \<and> (\<forall>f. Ev_ioctl f WDIOC_KEEPALIVE \<notin> set (trace ?p))"
    using sleep_inv_steps [of e args 5] pc by (simp add: sleep_inv_def)
  then have "(\<forall>d. Ev_sleep d \<notin> set (trace (steps e args 6))) \<and>
      (\<forall>f. Ev_ioctl f WDIOC_KEEPALIVE \<notin> set (trace (steps e args 6)))"
    unfolding st using pc by (simp add: main_step_def do_derive_def Let_def)
  then show ?thesis using quiet_trace by blast
qed

lemma loop_kick_times:
  assumes "startup_ok e args"
  shows "kick_times 0 (trace (steps e args (6 + 2 * n))) =
           map (\<lambda>k. k * unat (period (steps e args 6))) [0..<n]"
proof -
  let ?q = "steps e args 6"
  have "trace (steps e args (6 + 2 * n)) =
      trace ?q @ concat (replicate n (new_events wdt_kick ?q @ [Ev_sleep (unat (period ?q))]))"
    using loop_trace [OF assms, of n] by simp
  then show ?thesis
    using before_loop [OF assms, of 0] kick_times_cycles [of 0 n ?q "unat (period ?q)"]
    by (simp add: kick_times_append)
qed

section \<open>The claims about the loop and the timeout request\<close>

lemma wdt_get_timeout_trace:
  "\<exists>tr. trace (snd (wdt_get_timeout e p)) = trace p @ Ev_ioctl (fd p) WDIOC_GETTIMEOUT # tr"
  by (cases "verbose p = 0") (simp_all add: wdt_get_timeout_def Let_def DEBUG_def print_trace)

lemma do_get_trace:
  "\<exists>tr. trace (do_get e p) = trace p @ Ev_ioctl (fd p) WDIOC_GETTIMEOUT # tr"
proof -
  let ?p1 = "snd (wdt_get_timeout e p)"
  obtain tr where t: "trace ?p1 = trace p @ Ev_ioctl (fd p) WDIOC_GETTIMEOUT # tr"
    using wdt_get_timeout_trace by blast
  have "\<exists>evs. trace (do_get e p) = trace ?p1 @ evs"
  proof (cases "readback e <s 0")
    case True
    then show ?thesis by (simp add: do_get_def split_beta Let_def PERROR_def print_trace)
  next
    case False
    then show ?thesis
      by (cases "readback e \<le>s period p")
         (simp_all add: do_get_def split_beta Let_def ERROR_def print_trace)
  qed
  then obtain evs where "trace (do_get e p) = trace ?p1 @ evs" by blast
  then have "trace (do_get e p) = trace p @ Ev_ioctl (fd p) WDIOC_GETTIMEOUT # (tr @ evs)"
    using t by simp
  then show ?thesis by blast
qed

lemma set_timeout_failed_trace:
  assumes "fst (settimeout_ret e) \<noteq> 0"
  shows "\<exists>tr ev. trace (wdt_set_timeout e c p) = tr @ [Ev_ioctl (fd p) (WDIOC_SETTIMEOUT c), ev] \<and>
           is_perror ''Failed setting HW watchdog timeout'' ev"
proof -
  let ?ev = "if sys_log p \<noteq> 0
     then Ev_syslog LOG_ERR (''%s: '' @ ''Failed setting HW watchdog timeout'' @ '': %s'' @ nl)
            ([Progname] @ [Strerror_errno])
     else Ev_stderr (''%s: '' @ ''Failed setting HW watchdog timeout'' @ '': %s'' @ nl)
            ([Progname] @ [Strerror_errno])"
  let ?tr = "trace (DEBUG (''Setting watchdog timeout to %d sec.'' @ nl) [Int_arg c] p)"
  have t: "trace (wdt_set_timeout e c p) = ?tr @ [Ev_ioctl (fd p) (WDIOC_SETTIMEOUT c), ?ev]"
    using assms by (simp add: wdt_set_timeout_def Let_def PERROR_def print_trace)
  have pe: "is_perror ''Failed setting HW watchdog timeout'' ?ev" by simp
  show ?thesis using t pe by blast
qed

text \<open>
  C7, in the form that holds.  Once start-up is through (six phases), the run without signals is the
  loop, for ever: the process is alive after any number of phases; before the loop nothing
  was kicked and no time was spent; each round is what \<^verbatim>\<open>wdt_kick\<close> does (one keep-alive
  ioctl) followed by one \<^verbatim>\<open>sleep\<close>, called with \<^verbatim>\<open>period\<close> converted to
  \<^verbatim>\<open>unsigned\<close>; so on the virtual clock the kicks are at 0, \<open>d\<close>, \<open>2d\<close>, \<dots> for that
  number \<open>d\<close> of seconds.  When \<^verbatim>\<open>period\<close> is not negative, \<open>d\<close> is the effective
  interval and no two consecutive kicks are further apart; it is not negative whenever the
  command line has no \<^verbatim>\<open>-k\<close>.
\<close>

theorem C7_kick_loop:
  assumes "startup_ok e args"
  shows "status (steps e args m) = Running \<and>
         pc (steps e args (6 + 2 * n)) = PC_kick \<and>
         pc (steps e args (7 + 2 * n)) = PC_sleep \<and>
         kick_times 0 (trace (steps e args 6)) = [] \<and>
         elapsed (trace (steps e args 6)) = 0 \<and>
         trace (steps e args (6 + 2 * n)) =
           trace (steps e args 6) @
           concat (replicate n (new_events wdt_kick (steps e args 6) @
             [Ev_sleep (unat (period (steps e args 6)))])) \<and>
         kick_times 0 (new_events wdt_kick (steps e args 6)) = [0] \<and>
         kick_times 0 (trace (steps e args (6 + 2 * n))) =
           map (\<lambda>k. k * unat (period (steps e args 6))) [0..<n] \<and>
         (0 \<le>s period (steps e args 6) \<longrightarrow>
            int (unat (period (steps e args 6))) = sint (period (steps e args 6)) \<and>
            gaps_at_most (sint (period (steps e args 6)))
              (kick_times 0 (trace (steps e args (6 + 2 * n))))) \<and>
         (\<not> explicit_interval args \<longrightarrow> 0 \<le>s period (steps e args 6))"
proof -
  let ?q = "steps e args 6"
  let ?d = "unat (period ?q)"
  note rf = running_forever [OF assms]
  have 1: "status (steps e args m) = Running" using rf by simp
  have 2: "pc (steps e args (6 + 2 * n)) = PC_kick"
    using rf [of "6 + 2 * n"] by (simp add: phase_at_def)
  have 3: "pc (steps e args (7 + 2 * n)) = PC_sleep"
    using rf [of "7 + 2 * n"] by (simp add: phase_at_def)
  note 4 = before_loop [OF assms, of 0]
  have 5: "trace (steps e args (6 + 2 * n)) =
      trace ?q @ concat (replicate n (new_events wdt_kick ?q @ [Ev_sleep ?d]))"
    using loop_trace [OF assms, of n] by simp
  have 6: "kick_times 0 (new_events wdt_kick ?q) = [0]"
    by (simp add: kick_times_new_events)
  have 7: "kick_times 0 (trace (steps e args (6 + 2 * n))) = map (\<lambda>k. k * ?d) [0..<n]"
    using assms by (rule loop_kick_times)
  have 8: "int ?d = sint (period ?q) \<and>
      gaps_at_most (sint (period ?q)) (kick_times 0 (trace (steps e args (6 + 2 * n))))"
    if nn: "0 \<le>s period ?q"
  proof -
    have u: "int ?d = sint (period ?q)" using nn by (rule unat_nonneg)
    then have "gaps_at_most (sint (period ?q)) (map (\<lambda>k. 0 + k * ?d) [0..<n])"
      by (intro gaps_cycles) simp
    then show ?thesis using u unfolding 7 by simp
  qed
  have 9: "0 \<le>s period ?q" if nk: "\<not> explicit_interval args"
  proof -
    have K: "period (parsed e args) = - 1"
      using nk by (simp add: parsed_def getopt_loop_period_no_k)
    have "pc (run e args (replicate 6 Step)) \<in> {PC_kick, PC_sleep}"
      using rf [of 6] by (simp add: phase_at_def steps_def)
    then have "period ?q = negotiated (- 1) (readback e)"
      using period_in_loop [of e args "replicate 6 Step"] K by (simp add: steps_def)
    then show ?thesis
      using c_div_2_nonneg [of "readback e"]
      by (simp add: negotiated_eq WDT_KICK_DEFAULT_eq sless_zero_iff word_sle_eq)
  qed
  show ?thesis using 1 2 3 4 5 6 7 8 9 by blast
qed

theorem C7_witness:
  "startup_ok env_ok [Opt_f] \<and>
   status (steps env_ok [Opt_f] 100) = Running \<and>
   0 \<le>s period (steps env_ok [Opt_f] 6) \<and>
   sint (period (steps env_ok [Opt_f] 6)) = 10 \<and>
   trace (steps env_ok [Opt_f] (6 + 2 * 3)) =
     [Ev_open ''/dev/watchdog'', Ev_ioctl 3 (WDIOC_SETTIMEOUT 20), Ev_ioctl 3 WDIOC_GETTIMEOUT,
      Ev_ioctl 3 WDIOC_KEEPALIVE, Ev_sleep 10, Ev_ioctl 3 WDIOC_KEEPALIVE, Ev_sleep 10,
      Ev_ioctl 3 WDIOC_KEEPALIVE, Ev_sleep 10] \<and>
   kick_times 0 (trace (steps env_ok [Opt_f] (6 + 2 * 3))) = [0, 10, 20] \<and>
   gaps_at_most (sint (period (steps env_ok [Opt_f] 6)))
     (kick_times 0 (trace (steps env_ok [Opt_f] (6 + 2 * 3))))"
proof -
  have h: "startup_ok env_ok [Opt_f]" by code_simp
  have p: "0 \<le>s period (steps env_ok [Opt_f] 6)" by code_simp
  have s: "sint (period (steps env_ok [Opt_f] 6)) = 10" by code_simp
  have t: "trace (steps env_ok [Opt_f] (6 + 2 * 3)) =
     [Ev_open ''/dev/watchdog'', Ev_ioctl 3 (WDIOC_SETTIMEOUT 20), Ev_ioctl 3 WDIOC_GETTIMEOUT,
      Ev_ioctl 3 WDIOC_KEEPALIVE, Ev_sleep 10, Ev_ioctl 3 WDIOC_KEEPALIVE, Ev_sleep 10,
      Ev_ioctl 3 WDIOC_KEEPALIVE, Ev_sleep 10]" by code_simp
  have k: "kick_times 0 (trace (steps env_ok [Opt_f] (6 + 2 * 3))) = [0, 10, 20]"
    unfolding t by simp
  note th = C7_kick_loop [OF h, of 100 3]
  have r: "status (steps env_ok [Opt_f] 100) = Running" using th by blast
  have g: "gaps_at_most (sint (period (steps env_ok [Opt_f] 6)))
      (kick_times 0 (trace (steps env_ok [Opt_f] (6 + 2 * 3))))"
    using th p by blast
  show ?thesis using h r p s t k g by blast
qed

text \<open>
  C7 as the specification words it fails for a negative interval: with \<^verbatim>\<open>-k -5\<close> the
  effective interval is \<open>-5\<close>, \<^verbatim>\<open>sleep\<close> gets 4294967291, and the second kick is that many
  seconds after the first.
\<close>

theorem C7_counterexample:
  "startup_ok env_ok [Opt_f, Opt_k ''-5''] \<and>
   sint (period (steps env_ok [Opt_f, Opt_k ''-5''] 6)) = - 5 \<and>
   kick_times 0 (trace (steps env_ok [Opt_f, Opt_k ''-5''] 10)) = [0, 4294967291] \<and>
   \<not> gaps_at_most (sint (period (steps env_ok [Opt_f, Opt_k ''-5''] 6)))
        (kick_times 0 (trace (steps env_ok [Opt_f, Opt_k ''-5''] 10)))"
proof -
  let ?args = "[Opt_f, Opt_k ''-5'']"
  have h: "startup_ok env_ok ?args" by code_simp
  have p: "period (steps env_ok ?args 6) = - 5" by code_simp
  have u: "unat (- 5 :: c_int) = 4294967291" by simp
  have "steps env_ok ?args 10 = steps env_ok ?args (6 + 2 * 2)" by simp
  then have "kick_times 0 (trace (steps env_ok ?args 10)) =
      map (\<lambda>k. k * unat (period (steps env_ok ?args 6))) [0..<2]"
    using loop_kick_times [OF h, of 2] by simp
  also have "\<dots> = [0, 4294967291]"
    unfolding p u by (simp add: upt_rec)
  finally have k: "kick_times 0 (trace (steps env_ok ?args 10)) = [0, 4294967291]" .
  have s: "sint (period (steps env_ok ?args 6)) = - 5" unfolding p by simp
  have g: "\<not> gaps_at_most (sint (period (steps env_ok ?args 6)))
      (kick_times 0 (trace (steps env_ok ?args 10)))"
    unfolding k s by simp
  show ?thesis using h s k g by blast
qed

text \<open>
  C8.  A failing set-timeout request is not fatal: the warning is printed right after the
  ioctl, the next call is the get-timeout ioctl, and the process lives on into the loop.
  The interval it sleeps for is a function of the interval the command line gave and of the
  timeout read back alone: neither the requested timeout nor what the set-timeout ioctl
  answered occurs in it.
\<close>

theorem C8_set_timeout_failure_is_not_fatal:
  assumes "startup_ok e args"
    and "fst (settimeout_ret e) \<noteq> 0"
  shows "status (steps e args m) = Running \<and>
         (\<exists>tr ev tr'. trace (steps e args 5) =
            tr @ [Ev_ioctl (open_ret e) (WDIOC_SETTIMEOUT (timeout (parsed e args))), ev,
                  Ev_ioctl (open_ret e) WDIOC_GETTIMEOUT] @ tr' \<and>
            is_perror ''Failed setting HW watchdog timeout'' ev) \<and>
         pc (steps e args (6 + n)) \<in> {PC_kick, PC_sleep} \<and>
         period (steps e args (6 + n)) =
           (if period (parsed e args) = - 1
            then (if readback e <s 0 then WDT_KICK_DEFAULT else c_div (readback e) 2)
            else period (parsed e args))"
proof -
  note rf = running_forever [OF assms(1)]
  have 1: "status (steps e args m) = Running" using rf by simp
  let ?p3 = "steps e args 3" and ?p4 = "steps e args 4"
  have pc3: "pc ?p3 = PC_set" and pc4: "pc ?p4 = PC_get"
    using rf [of 3] rf [of 4] by (simp_all add: phase_at_def)
  have f3: "fd ?p3 = open_ret e" "timeout ?p3 = timeout (parsed e args)"
    using neg_inv_steps [of e args 3] pc3 by (simp_all add: neg_inv_def)
  have f4: "fd ?p4 = open_ret e"
    using neg_inv_steps [of e args 4] pc4 by (simp add: neg_inv_def)
  have "steps e args 4 = steps e args (Suc 3)" by simp
  also have "\<dots> = main_step e args ?p3" using rf by (intro steps_Suc_running) simp
  finally have t4: "trace ?p4 = trace (wdt_set_timeout e (timeout ?p3) ?p3)"
    using pc3 by (simp add: main_step_def)
  have "steps e args 5 = steps e args (Suc 4)" by simp
  also have "\<dots> = main_step e args ?p4" using rf by (intro steps_Suc_running) simp
  finally have t5: "trace (steps e args 5) = trace (do_get e ?p4)"
    using pc4 by (simp add: main_step_def)
  obtain tr ev where a: "trace ?p4 =
      tr @ [Ev_ioctl (open_ret e) (WDIOC_SETTIMEOUT (timeout (parsed e args))), ev]"
    "is_perror ''Failed setting HW watchdog timeout'' ev"
    using set_timeout_failed_trace [OF assms(2), of "timeout ?p3" ?p3] f3 t4 by auto
  obtain tr' where b: "trace (steps e args 5) =
      trace ?p4 @ Ev_ioctl (open_ret e) WDIOC_GETTIMEOUT # tr'"
    using do_get_trace [of e ?p4] f4 t5 by auto
  have "trace (steps e args 5) =
      tr @ [Ev_ioctl (open_ret e) (WDIOC_SETTIMEOUT (timeout (parsed e args))), ev,
            Ev_ioctl (open_ret e) WDIOC_GETTIMEOUT] @ tr'"
    using a(1) b by simp
  then have 2: "\<exists>tr ev tr'. trace (steps e args 5) =
      tr @ [Ev_ioctl (open_ret e) (WDIOC_SETTIMEOUT (timeout (parsed e args))), ev,
            Ev_ioctl (open_ret e) WDIOC_GETTIMEOUT] @ tr' \<and>
      is_perror ''Failed setting HW watchdog timeout'' ev"
    using a(2) by blast
  have 3: "pc (steps e args (6 + n)) \<in> {PC_kick, PC_sleep}"
    using rf [of "6 + n"] by (simp add: phase_at_def)
  then have 4: "period (steps e args (6 + n)) =
      (if period (parsed e args) = - 1
       then (if readback e <s 0 then WDT_KICK_DEFAULT else c_div (readback e) 2)
       else period (parsed e args))"
    using period_in_loop [of e args "replicate (6 + n) Step"]
    by (simp add: steps_def negotiated_eq)
  show ?thesis using 1 2 3 4 by blast
qed

theorem C8_witness:
  "startup_ok (env_ok\<lparr>settimeout_ret := (- 1, 60), gettimeout_ret := (0, 30)\<rparr>)
     [Opt_f, Opt_w ''60''] \<and>
   fst (settimeout_ret (env_ok\<lparr>settimeout_ret := (- 1, 60), gettimeout_ret := (0, 30)\<rparr>)) \<noteq> 0 \<and>
   status (steps (env_ok\<lparr>settimeout_ret := (- 1, 60), gettimeout_ret := (0, 30)\<rparr>)
     [Opt_f, Opt_w ''60''] 50) = Running \<and>
   timeout (steps (env_ok\<lparr>settimeout_ret := (- 1, 60), gettimeout_ret := (0, 30)\<rparr>)
     [Opt_f, Opt_w ''60''] (6 + 2)) = 60 \<and>
   period (steps (env_ok\<lparr>settimeout_ret := (- 1, 60), gettimeout_ret := (0, 30)\<rparr>)
     [Opt_f, Opt_w ''60''] (6 + 2)) = 15 \<and>
   trace (steps (env_ok\<lparr>settimeout_ret := (- 1, 60), gettimeout_ret := (0, 30)\<rparr>)
     [Opt_f, Opt_w ''60''] 5) =
     [Ev_open ''/dev/watchdog'', Ev_ioctl 3 (WDIOC_SETTIMEOUT 60),
      Ev_stderr (''%s: Failed setting HW watchdog timeout: %s'' @ nl) [Progname, Strerror_errno],
      Ev_ioctl 3 WDIOC_GETTIMEOUT]"
proof -
  let ?e = "env_ok\<lparr>settimeout_ret := (- 1, 60), gettimeout_ret := (0, 30)\<rparr>"
  let ?args = "[Opt_f, Opt_w ''60'']"
  have h1: "startup_ok ?e ?args" by code_simp
  have h2: "fst (settimeout_ret ?e) \<noteq> 0" by code_simp
  have K: "period (parsed ?e ?args) = - 1" by code_simp
  have T: "\<not> readback ?e <s 0" "c_div (readback ?e) 2 = 15" by code_simp+
  have w: "timeout (steps ?e ?args (6 + 2)) = 60" by code_simp
  have t: "trace (steps ?e ?args 5) =
     [Ev_open ''/dev/watchdog'', Ev_ioctl 3 (WDIOC_SETTIMEOUT 60),
      Ev_stderr (''%s: Failed setting HW watchdog timeout: %s'' @ nl) [Progname, Strerror_errno],
      Ev_ioctl 3 WDIOC_GETTIMEOUT]" by code_simp
  note th = C8_set_timeout_failure_is_not_fatal [OF h1 h2, of 50 2]
  have r: "status (steps ?e ?args 50) = Running" using th by blast
  have "period (steps ?e ?args (6 + 2)) =
      (if period (parsed ?e ?args) = - 1
       then (if readback ?e <s 0 then WDT_KICK_DEFAULT else c_div (readback ?e) 2)
       else period (parsed ?e ?args))"
    using th by blast
  then have p: "period (steps ?e ?args (6 + 2)) = 15" using K T by simp
  show ?thesis using h1 h2 r w p t by blast
qed

end
